theory Spec2Isabelle
  imports Complex_Main "HOL-Library.AList"
begin

section \<open>JavaScript values used by the risk overlay\<close>

text \<open>
  The embedding follows \<^verbatim>\<open>frontend/src/App.jsx\<close>. Only the values the synchronizer
  inspects are modelled.

  A risk is a JavaScript number. The code never computes with it: it converts it with
  \<^verbatim>\<open>Number\<close> and tests it with \<^verbatim>\<open>Number.isFinite\<close>, so a finite number is carried
  as a real and the three non-finite numbers are constructors of their own.
\<close>

datatype jsnum = Finite real | NaN | PosInfinity | NegInfinity

text \<open>
  The \<^verbatim>\<open>risk\<close> field of a prediction as it arrives in the JSON payload: absent
  (\<^verbatim>\<open>undefined\<close>), \<^verbatim>\<open>null\<close>, or a number. \<^verbatim>\<open>Number(undefined)\<close> is \<^verbatim>\<open>NaN\<close> and
  \<^verbatim>\<open>Number(null)\<close> is \<^verbatim>\<open>0\<close>.
\<close>

datatype json_number = NumUndefined | NumNull | Num jsnum

fun js_Number :: "json_number \<Rightarrow> jsnum" where
  "js_Number NumUndefined = NaN"
| "js_Number NumNull = Finite 0"
| "js_Number (Num n) = n"

fun isFinite :: "jsnum \<Rightarrow> bool" where
  "isFinite (Finite r) = True"
| "isFinite NaN = False"
| "isFinite PosInfinity = False"
| "isFinite NegInfinity = False"

text \<open>
  A value in key position (a region's \<^verbatim>\<open>neighborhood\<close> or \<^verbatim>\<open>name\<close> property, a
  feature \<^verbatim>\<open>id\<close>, a prediction's \<^verbatim>\<open>neighborhood_id\<close>): absent, \<^verbatim>\<open>null\<close>, a string, or
  a non-negative integer, whose \<^verbatim>\<open>String\<close> is its decimal numeral (as JavaScript prints
  every integer below \<^verbatim>\<open>1e21\<close>).
\<close>

datatype jskey = KeyUndefined | KeyNull | KeyString string | KeyNumber nat

definition digit_char :: "nat \<Rightarrow> char" where
  "digit_char n = ''0123456789'' ! (n mod 10)"

function string_of_nat :: "nat \<Rightarrow> string" where
  "string_of_nat n =
     (if n < 10 then [digit_char n] else string_of_nat (n div 10) @ [digit_char n])"
  by pat_completeness auto
termination
  by (relation "measure (\<lambda>n. n)") auto

declare string_of_nat.simps [simp del]

fun js_String :: "jskey \<Rightarrow> string" where
  "js_String KeyUndefined = ''undefined''"
| "js_String KeyNull = ''null''"
| "js_String (KeyString s) = s"
| "js_String (KeyNumber n) = string_of_nat n"

text \<open>Truthiness, for \<^verbatim>\<open>a || b\<close>: the empty string and \<^verbatim>\<open>0\<close> are falsy.\<close>

fun truthy :: "jskey \<Rightarrow> bool" where
  "truthy KeyUndefined = False"
| "truthy KeyNull = False"
| "truthy (KeyString s) = (s \<noteq> [])"
| "truthy (KeyNumber n) = (n \<noteq> 0)"

definition js_or :: "jskey \<Rightarrow> jskey \<Rightarrow> jskey" where
  "js_or a b = (if truthy a then a else b)"

text \<open>Nullish coalescing, \<^verbatim>\<open>a ?? b\<close>: only \<^verbatim>\<open>undefined\<close> and \<^verbatim>\<open>null\<close> fall through.\<close>

fun nullish :: "jskey \<Rightarrow> bool" where
  "nullish KeyUndefined = True"
| "nullish KeyNull = True"
| "nullish (KeyString s) = False"
| "nullish (KeyNumber n) = False"

definition js_coalesce :: "jskey \<Rightarrow> jskey \<Rightarrow> jskey" where
  "js_coalesce a b = (if nullish a then b else a)"

section \<open>Plain objects and Maps as dictionaries\<close>

text \<open>
  \<^verbatim>\<open>idMapRef.current\<close> is a plain object created by \<^verbatim>\<open>{}\<close> and filled by
  \<^verbatim>\<open>obj[key] = idx\<close>. Its own properties are an association list in insertion order.
  An assignment replaces the value of an existing own property in place and appends a
  new one otherwise. The key \<^verbatim>\<open>__proto__\<close> is the exception: the object inherits an
  accessor of that name from \<^verbatim>\<open>Object.prototype\<close>, the assignment calls its setter, and
  the setter ignores a number, so no own property is created (and an object filled this
  way never has an own property of that name).
\<close>

type_synonym js_object = "(string \<times> nat) list"

definition obj_set :: "string \<Rightarrow> nat \<Rightarrow> js_object \<Rightarrow> js_object" where
  "obj_set k v obj = (if k = ''__proto__'' then obj else AList.update k v obj)"

text \<open>
  \<^verbatim>\<open>Object.entries\<close> lists the own properties whose key is an array index (the
  canonical numeral of an integer below \<^verbatim>\<open>2^32 - 1\<close>) first, in ascending numeric order,
  and then the others in insertion order.
\<close>

definition is_digit :: "char \<Rightarrow> bool" where
  "is_digit c = (c \<in> set ''0123456789'')"

definition digit_value :: "char \<Rightarrow> nat" where
  "digit_value c = of_char c - 48"

definition digits_value :: "string \<Rightarrow> nat" where
  "digits_value s = foldl (\<lambda>acc c. 10 * acc + digit_value c) 0 s"

definition array_index :: "string \<Rightarrow> nat option" where
  "array_index s =
     (if s \<noteq> [] \<and> list_all is_digit s \<and> string_of_nat (digits_value s) = s
         \<and> digits_value s < 4294967295
      then Some (digits_value s) else None)"

definition index_rank :: "string \<times> nat \<Rightarrow> nat" where
  "index_rank e = (case array_index (fst e) of Some n \<Rightarrow> n | None \<Rightarrow> 0)"

definition Object_entries :: "js_object \<Rightarrow> (string \<times> nat) list" where
  "Object_entries obj =
     sort_key index_rank (filter (\<lambda>e. array_index (fst e) \<noteq> None) obj)
     @ filter (\<lambda>e. array_index (fst e) = None) obj"

text \<open>
  \<^verbatim>\<open>new Map(pairs)\<close> inserts the pairs in order; a later pair with a key already present
  replaces the value. \<^verbatim>\<open>get\<close> is a lookup.
\<close>

definition js_Map :: "(string \<times> 'v) list \<Rightarrow> (string \<times> 'v) list" where
  "js_Map pairs = foldl (\<lambda>m (k, v). AList.update k v m) [] pairs"

definition Map_get :: "(string \<times> 'v) list \<Rightarrow> string \<Rightarrow> 'v option" where
  "Map_get m k = map_of m k"

section \<open>The region index (onLoad)\<close>

text \<open>
  A GeoJSON feature as \<^verbatim>\<open>onLoad\<close> reads it: \<^verbatim>\<open>f.properties?.neighborhood\<close>,
  \<^verbatim>\<open>f.properties?.name\<close> and \<^verbatim>\<open>f.id\<close>. A feature without \<^verbatim>\<open>properties\<close> has both
  properties undefined.
\<close>

record feature =
  properties_neighborhood :: jskey
  properties_name :: jskey
  feature_id :: jskey

text \<open>
  \<^verbatim>\<open>const name = f.properties?.neighborhood || f.properties?.name;
  const key = String(name ?? f.id ?? idx);\<close>
\<close>

definition feature_name :: "feature \<Rightarrow> jskey" where
  "feature_name f = js_or (properties_neighborhood f) (properties_name f)"

definition feature_key :: "feature \<Rightarrow> nat \<Rightarrow> string" where
  "feature_key f idx =
     js_String (js_coalesce (js_coalesce (feature_name f) (feature_id f)) (KeyNumber idx))"

text \<open>
  \<^verbatim>\<open>raw.features.map((f, idx) => { ...; idMapRef.current[key] = idx; return { ...f, id: idx }; })\<close>:
  the callback runs on the features in order, starting at \<open>idx\<close>; it mutates the index
  object and returns the feature with its id replaced by its position.
\<close>

fun index_features :: "nat \<Rightarrow> feature list \<Rightarrow> js_object \<Rightarrow> js_object \<times> feature list" where
  "index_features idx [] obj = (obj, [])"
| "index_features idx (f # fs) obj =
     (let key = feature_key f idx;
          obj' = obj_set key idx obj;
          (obj'', out) = index_features (Suc idx) fs obj'
      in (obj'', f\<lparr>feature_id := KeyNumber idx\<rparr> # out))"

declare index_features.simps(2) [simp del]

section \<open>Application state\<close>

text \<open>
  A prediction of the payload, \<^verbatim>\<open>{ neighborhood_id, risk, prob, mean_incidents }\<close>, and
  a response, \<^verbatim>\<open>{ predictions, served_week }\<close>. A response without a \<^verbatim>\<open>predictions\<close>
  array has \<open>predictions = None\<close>; \<^verbatim>\<open>served_week\<close> is a string or absent.
\<close>

record prediction =
  neighborhood_id :: jskey
  risk :: json_number
  prob :: json_number
  mean_incidents :: json_number

record response =
  predictions :: "prediction list option"
  served_week :: "string option"

text \<open>
  How an awaited promise settles: rejected with an error \<open>e\<close>, of which the code reads
  \<^verbatim>\<open>e?.message\<close> (\<open>None\<close> when there is none), or fulfilled with a value.
\<close>

datatype 'a settled = Rejected "string option" | Fulfilled 'a

text \<open>
  The refs and the React state of \<^verbatim>\<open>App\<close> that the synchronizer reads or writes, and
  the feature-state store of the map's \<^verbatim>\<open>neigh\<close> source (the \<^verbatim>\<open>risk\<close> of each feature
  id, \<open>None\<close> while no state was set). \<open>mapRef\<close> says whether \<^verbatim>\<open>mapRef.current\<close> holds
  a map, \<open>neigh_source\<close> whether \<^verbatim>\<open>m.getSource("neigh")\<close> finds the source.
  \<^verbatim>\<open>requestIdRef.current\<close> is a JavaScript number that only \<^verbatim>\<open>++\<close> changes; it is a
  natural number here (the increment is exact below \<^verbatim>\<open>2^53\<close>).
\<close>

record app_state =
  mapRef :: bool
  neigh_source :: bool
  idMapRef :: js_object
  featureCountRef :: nat
  predsByNameRef :: "(string \<times> prediction) list"
  requestIdRef :: nat
  err :: string
  loading :: bool
  servedWeek :: "string option"
  featureState :: "nat \<Rightarrow> jsnum option"

definition initial_state :: app_state where
  "initial_state =
     \<lparr>mapRef = False, neigh_source = False, idMapRef = [], featureCountRef = 0,
      predsByNameRef = [], requestIdRef = 0, err = [], loading = False,
      servedWeek = None, featureState = (\<lambda>i. None)\<rparr>"

text \<open>\<^verbatim>\<open>m.setFeatureState({ source: "neigh", id: i }, { risk: v })\<close>\<close>

definition setFeatureState :: "nat \<Rightarrow> jsnum \<Rightarrow> app_state \<Rightarrow> app_state" where
  "setFeatureState i v s = s\<lparr>featureState := (featureState s)(i \<mapsto> v)\<rparr>"

section \<open>paintChoropleth\<close>

text \<open>
  The reset loop, \<^verbatim>\<open>for (let i = 0; i < featureCountRef.current; i++)\<close>, from \<open>i\<close> on.
\<close>

function reset_risk :: "nat \<Rightarrow> app_state \<Rightarrow> app_state" where
  "reset_risk i s =
     (if i < featureCountRef s then reset_risk (Suc i) (setFeatureState i (Finite 0) s)
      else s)"
  by pat_completeness auto
termination
  by (relation "measure (\<lambda>(i, s). featureCountRef s - i)")
     (auto simp: setFeatureState_def)

declare reset_risk.simps [simp del]

text \<open>
  The body of the apply loop:
  \<^verbatim>\<open>const p = byName.get(name); const risk = p ? Number(p.risk) : 0;
  m.setFeatureState({ source: "neigh", id: Number(idx) }, { risk: Number.isFinite(risk) ? risk : 0 });\<close>
\<close>

definition risk_of :: "(string \<times> prediction) list \<Rightarrow> string \<Rightarrow> jsnum" where
  "risk_of byName name =
     (let risk = (case Map_get byName name of Some p \<Rightarrow> js_Number (risk p) | None \<Rightarrow> Finite 0)
      in if isFinite risk then risk else Finite 0)"

fun set_risk :: "(string \<times> nat) list \<Rightarrow> (string \<times> prediction) list \<Rightarrow> app_state \<Rightarrow> app_state" where
  "set_risk [] byName s = s"
| "set_risk ((name, idx) # entries) byName s =
     set_risk entries byName (setFeatureState idx (risk_of byName name) s)"

text \<open>\<^verbatim>\<open>new Map(resp.predictions.map((p) => [String(p.neighborhood_id), p]))\<close>\<close>

definition by_name :: "prediction list \<Rightarrow> (string \<times> prediction) list" where
  "by_name ps = js_Map (map (\<lambda>p. (js_String (neighborhood_id p), p)) ps)"

text \<open>
  A call of \<^verbatim>\<open>paintChoropleth(currentMode, d, ct, time)\<close> runs up to its \<^verbatim>\<open>await\<close>, and
  resumes when the fetch settles. The request is what the suspended call keeps: its
  \<open>rid\<close> and its arguments.
\<close>

record request =
  rid :: nat
  currentMode :: string
  req_date :: string
  req_crime :: string
  req_time :: string

text \<open>
  Up to the \<^verbatim>\<open>await\<close>: the guard, the three setters, \<^verbatim>\<open>const rid = ++requestIdRef.current\<close>.
  The result is the new state and the request now in flight, if any.
\<close>

definition paintChoropleth_call ::
  "string \<Rightarrow> string \<Rightarrow> string \<Rightarrow> string \<Rightarrow> app_state \<Rightarrow> app_state \<times> request option" where
  "paintChoropleth_call mode_arg date_arg crime_arg time_arg s =
     (if \<not> mapRef s \<or> \<not> neigh_source s then (s, None)
      else
        let s1 = s\<lparr>loading := True\<rparr>;
            s2 = s1\<lparr>err := []\<rparr>;
            s3 = s2\<lparr>servedWeek := None\<rparr>;
            s4 = s3\<lparr>requestIdRef := requestIdRef s3 + 1\<rparr>
        in (s4, Some \<lparr>rid = requestIdRef s4, currentMode = mode_arg, req_date = date_arg,
                       req_crime = crime_arg, req_time = time_arg\<rparr>))"

text \<open>\<^verbatim>\<open>e?.message || "Failed to load data."\<close>\<close>

definition error_message :: "string option \<Rightarrow> string \<Rightarrow> string" where
  "error_message msg fallback =
     (case msg of None \<Rightarrow> fallback | Some m \<Rightarrow> if m = [] then fallback else m)"

text \<open>
  The message of the \<^verbatim>\<open>TypeError\<close> that \<^verbatim>\<open>resp.predictions.map\<close> throws when the
  response has no \<^verbatim>\<open>predictions\<close> (the text is V8's).
\<close>

definition type_error_message :: string where
  "type_error_message = ''Cannot read properties of undefined (reading 'map')''"

text \<open>\<^verbatim>\<open>catch (e) { console.error(e); setErr(e?.message || "Failed to load data."); }\<close>\<close>

definition catch_block :: "string option \<Rightarrow> app_state \<Rightarrow> app_state" where
  "catch_block msg s = s\<lparr>err := error_message msg ''Failed to load data.''\<rparr>"

text \<open>\<^verbatim>\<open>finally { if (rid === requestIdRef.current) setLoading(false); }\<close>\<close>

definition finally_block :: "nat \<Rightarrow> app_state \<Rightarrow> app_state" where
  "finally_block r s = (if r = requestIdRef s then s\<lparr>loading := False\<rparr> else s)"

text \<open>
  After the \<^verbatim>\<open>await\<close>. A rejected fetch goes to \<^verbatim>\<open>catch\<close>; a fulfilled one continues in
  the branch of its mode, where \<^verbatim>\<open>if (rid !== requestIdRef.current) return;\<close> leaves the
  \<^verbatim>\<open>try\<close>. \<^verbatim>\<open>finally\<close> runs on every path.
\<close>

definition paintChoropleth_resume :: "request \<Rightarrow> response settled \<Rightarrow> app_state \<Rightarrow> app_state" where
  "paintChoropleth_resume req outcome s =
     (if currentMode req = ''spike'' then
        (case outcome of
           Rejected msg \<Rightarrow> finally_block (rid req) (catch_block msg s)
         | Fulfilled resp \<Rightarrow>
             if rid req \<noteq> requestIdRef s then finally_block (rid req) s
             else
               (case predictions resp of
                  None \<Rightarrow> finally_block (rid req) (catch_block (Some type_error_message) s)
                | Some ps \<Rightarrow>
                    let byName = by_name ps;
                        s1 = s\<lparr>predsByNameRef := byName\<rparr>;
                        s2 = s1\<lparr>servedWeek :=
                                 (case served_week resp of
                                    None \<Rightarrow> None
                                  | Some w \<Rightarrow> if w = [] then None else Some w)\<rparr>;
                        s3 = reset_risk 0 s2;
                        s4 = set_risk (Object_entries (idMapRef s3)) byName s3
                    in finally_block (rid req) s4))
      else
        (case outcome of
           Rejected msg \<Rightarrow> finally_block (rid req) (catch_block msg s)
         | Fulfilled data \<Rightarrow>
             if rid req \<noteq> requestIdRef s then finally_block (rid req) s
             else
               (case predictions data of
                  None \<Rightarrow> finally_block (rid req) (catch_block (Some type_error_message) s)
                | Some ps \<Rightarrow>
                    let byName = by_name ps;
                        s1 = s\<lparr>predsByNameRef := byName\<rparr>;
                        s2 = reset_risk 0 s1;
                        s3 = set_risk (Object_entries (idMapRef s2)) byName s2
                    in finally_block (rid req) s3)))"

section \<open>onLoad\<close>

text \<open>
  \<^verbatim>\<open>onLoad\<close> runs once the map exists. When \<^verbatim>\<open>getNeighborhoods\<close> is fulfilled with a
  feature collection it indexes the features, records their number, adds the source
  unless it is there, and makes the initial call of \<^verbatim>\<open>paintChoropleth\<close>. A rejection, or
  a collection without \<^verbatim>\<open>features\<close>, goes to
  \<^verbatim>\<open>catch (e) { setErr(e?.message || "Failed to load neighborhoods."); }\<close>.
\<close>

definition onLoad ::
  "feature list option settled \<Rightarrow> string \<Rightarrow> string \<Rightarrow> string \<Rightarrow> string \<Rightarrow> app_state
     \<Rightarrow> app_state \<times> request option" where
  "onLoad raw mode_arg date_arg crime_arg time_arg s =
     (case raw of
        Rejected msg \<Rightarrow> (s\<lparr>err := error_message msg ''Failed to load neighborhoods.''\<rparr>, None)
      | Fulfilled None \<Rightarrow>
          (s\<lparr>err := error_message (Some type_error_message) ''Failed to load neighborhoods.''\<rparr>,
           None)
      | Fulfilled (Some raw_features) \<Rightarrow>
          let (obj, features) = index_features 0 raw_features (idMapRef s);
              s1 = s\<lparr>idMapRef := obj\<rparr>;
              s2 = s1\<lparr>featureCountRef := length features\<rparr>;
              s3 = s2\<lparr>neigh_source := True\<rparr>
          in paintChoropleth_call mode_arg date_arg crime_arg time_arg s3)"

section \<open>Interleavings\<close>

text \<open>
  JavaScript runs one continuation at a time. What happens to the component is a
  sequence of events: a call of \<^verbatim>\<open>paintChoropleth\<close> (from the effect on the controls),
  or the fetch of an earlier call settling, which resumes that call. \<open>run\<close> plays a
  sequence and collects the requests it put in flight, in the order of their issue.
\<close>

datatype event =
  Call string string string string
| Settle request "response settled"

fun react :: "event \<Rightarrow> app_state \<Rightarrow> app_state \<times> request option" where
  "react (Call mode_arg date_arg crime_arg time_arg) s =
     paintChoropleth_call mode_arg date_arg crime_arg time_arg s"
| "react (Settle req outcome) s = (paintChoropleth_resume req outcome s, None)"

fun run :: "event list \<Rightarrow> app_state \<Rightarrow> app_state \<times> request list" where
  "run [] s = (s, [])"
| "run (e # es) s =
     (let (s1, issued) = react e s;
          (s2, later) = run es s1
      in (s2, (case issued of None \<Rightarrow> [] | Some req \<Rightarrow> [req]) @ later))"

fun is_Call :: "event \<Rightarrow> bool" where
  "is_Call (Call m d c t) = True"
| "is_Call (Settle req outcome) = False"

text \<open>
  A state whose index and feature count were built by \<^verbatim>\<open>onLoad\<close> from the features
  \<open>fs\<close>, starting with the empty object of \<^verbatim>\<open>useRef({})\<close>.
\<close>

definition indexed :: "feature list \<Rightarrow> app_state \<Rightarrow> bool" where
  "indexed fs s =
     (idMapRef s = fst (index_features 0 fs []) \<and> featureCountRef s = length fs)"

text \<open>What the claims compare: the rendered risks, the prediction cache, the served week.\<close>

definition synchronized :: "app_state \<Rightarrow> (nat \<Rightarrow> jsnum option) \<times> (string \<times> prediction) list \<times> string option" where
  "synchronized s = (featureState s, predsByNameRef s, servedWeek s)"

section \<open>Example data\<close>

text \<open>
  The scenario of the specification: the regions \<^verbatim>\<open>Mission\<close> and \<^verbatim>\<open>SoMa\<close>, loaded into
  a component whose map exists. \<open>loaded\<close> is the state after \<^verbatim>\<open>onLoad\<close>, with the initial
  forecast request in flight.
\<close>

definition mission :: feature where
  "mission = \<lparr>properties_neighborhood = KeyString ''Mission'', properties_name = KeyUndefined,
              feature_id = KeyUndefined\<rparr>"

definition soma :: feature where
  "soma = \<lparr>properties_neighborhood = KeyUndefined, properties_name = KeyString ''SoMa'',
           feature_id = KeyUndefined\<rparr>"

definition mounted :: app_state where
  "mounted = initial_state\<lparr>mapRef := True\<rparr>"

definition loaded :: app_state where
  "loaded = fst (onLoad (Fulfilled (Some [mission, soma])) ''forecast'' ''2024-03-01'' ''all'' ''all'' mounted)"

definition record_for :: "string \<Rightarrow> json_number \<Rightarrow> prediction" where
  "record_for k r = \<lparr>neighborhood_id = KeyString k, risk = r, prob = NumUndefined,
                     mean_incidents = NumUndefined\<rparr>"

definition request_no :: "nat \<Rightarrow> string \<Rightarrow> request" where
  "request_no n m = \<lparr>rid = n, currentMode = m, req_date = ''2024-03-01'', req_crime = ''all'',
                     req_time = ''all''\<rparr>"

text \<open>
  Two responses, and the state after two further calls on \<open>loaded\<close>: a spike request
  with epoch 2 and then a forecast request with epoch 3.
\<close>

definition mission_62 :: response where
  "mission_62 = \<lparr>predictions = Some [record_for ''Mission'' (Num (Finite 62))],
                 served_week = Some ''2024-W09''\<rparr>"

definition soma_30 :: response where
  "soma_30 = \<lparr>predictions = Some [record_for ''SoMa'' (Num (Finite 30))], served_week = None\<rparr>"

definition mission_only :: "real \<Rightarrow> response" where
  "mission_only r = \<lparr>predictions = Some [record_for ''Mission'' (Num (Finite r))],
                     served_week = None\<rparr>"

definition issued_twice :: app_state where
  "issued_twice = loaded\<lparr>requestIdRef := 3\<rparr>"

text \<open>
  \<open>painted_80\<close>: the initial request of \<open>loaded\<close> was accepted with a risk of 80 for
  \<^verbatim>\<open>Mission\<close>; \<open>repainting\<close>: a further forecast call was made then (epoch 2).
\<close>

definition painted_80 :: app_state where
  "painted_80 = paintChoropleth_resume (request_no 1 ''forecast'') (Fulfilled (mission_only 80)) loaded"

definition repainting :: app_state where
  "repainting = fst (paintChoropleth_call ''forecast'' ''2024-03-08'' ''violent'' ''all'' painted_80)"

text \<open>A region whose name is \<^verbatim>\<open>__proto__\<close>.\<close>

definition proto_region :: feature where
  "proto_region = \<lparr>properties_neighborhood = KeyString ''__proto__'',
                   properties_name = KeyUndefined, feature_id = KeyUndefined\<rparr>"

text \<open>
  The state after \<^verbatim>\<open>onLoad\<close> of \<^verbatim>\<open>Mission\<close> and two regions named \<^verbatim>\<open>__proto__\<close>, and a
  response with a risk for that name.
\<close>

definition loaded_proto :: app_state where
  "loaded_proto =
     fst (onLoad (Fulfilled (Some [mission, proto_region, proto_region])) ''forecast''
            ''2024-03-01'' ''all'' ''all'' mounted)"

definition proto_62 :: response where
  "proto_62 = \<lparr>predictions = Some [record_for ''__proto__'' (Num (Finite 62))],
               served_week = None\<rparr>"

section \<open>Dictionaries\<close>

lemma set_update_cases:
  "(k', v') \<in> set (AList.update k v al) \<Longrightarrow> (k', v') = (k, v) \<or> (k', v') \<in> set al"
  by (induction al) (auto split: if_splits)

lemma index_features_Cons_fst [simp]:
  "fst (index_features idx (f # fs) obj) =
     fst (index_features (Suc idx) fs (obj_set (feature_key f idx) idx obj))"
  by (simp add: index_features.simps(2) Let_def split: prod.splits)

lemma index_features_Cons_snd [simp]:
  "snd (index_features idx (f # fs) obj) =
     f\<lparr>feature_id := KeyNumber idx\<rparr>
       # snd (index_features (Suc idx) fs (obj_set (feature_key f idx) idx obj))"
  by (simp add: index_features.simps(2) Let_def split: prod.splits)

lemma set_obj_set_cases:
  "(k', v') \<in> set (obj_set k v obj) \<Longrightarrow>
     (k', v') \<in> set obj \<or> ((k', v') = (k, v) \<and> k \<noteq> ''__proto__'')"
  unfolding obj_set_def by (auto dest: set_update_cases split: if_splits)

lemma distinct_obj_set:
  "distinct (map fst obj) \<Longrightarrow> distinct (map fst (obj_set k v obj))"
  by (simp add: obj_set_def distinct_update)

lemma map_of_obj_set:
  "map_of (obj_set k v obj) k' =
     (if k' = k \<and> k \<noteq> ''__proto__'' then Some v else map_of obj k')"
  by (simp add: obj_set_def update_conv')

lemma index_features_length: "length (snd (index_features idx fs obj)) = length fs"
  by (induction fs arbitrary: idx obj) simp_all

lemma index_features_ids:
  "map feature_id (snd (index_features idx fs obj)) = map KeyNumber [idx..<idx + length fs]"
proof (induction fs arbitrary: idx obj)
  case Nil
  then show ?case by simp
next
  case (Cons f fs)
  have "[idx..<idx + length (f # fs)] = idx # [Suc idx..<Suc idx + length fs]"
    by (subst upt_rec) simp
  with Cons.IH [of "Suc idx" "obj_set (feature_key f idx) idx obj"] show ?case
    by simp
qed

lemma index_features_distinct:
  "distinct (map fst obj) \<Longrightarrow> distinct (map fst (fst (index_features idx fs obj)))"
proof (induction fs arbitrary: idx obj)
  case Nil
  then show ?case by simp
next
  case (Cons f fs)
  from Cons.IH [OF distinct_obj_set [OF Cons.prems], of "Suc idx" "feature_key f idx" idx]
  show ?case by simp
qed

lemma index_features_entries:
  "(k, j) \<in> set (fst (index_features idx fs obj)) \<Longrightarrow>
     (k, j) \<in> set obj \<or>
     (idx \<le> j \<and> j < idx + length fs \<and> feature_key (fs ! (j - idx)) j = k \<and> k \<noteq> ''__proto__'')"
proof (induction fs arbitrary: idx obj)
  case Nil
  then show ?case by simp
next
  case (Cons f fs)
  let ?obj = "obj_set (feature_key f idx) idx obj"
  from Cons.prems have "(k, j) \<in> set (fst (index_features (Suc idx) fs ?obj))"
    by simp
  from Cons.IH [OF this] consider
    (old) "(k, j) \<in> set ?obj"
  | (new) "Suc idx \<le> j" "j < Suc idx + length fs" "feature_key (fs ! (j - Suc idx)) j = k"
      "k \<noteq> ''__proto__''"
    by blast
  then show ?case
  proof cases
    case old
    from set_obj_set_cases [OF this] show ?thesis by auto
  next
    case new
    then have "j - idx = Suc (j - Suc idx)" by simp
    then have "(f # fs) ! (j - idx) = fs ! (j - Suc idx)"
      by simp
    with new show ?thesis by auto
  qed
qed

lemma index_features_untouched:
  "(\<forall>j<length fs. feature_key (fs ! j) (idx + j) \<noteq> k) \<Longrightarrow>
     map_of (fst (index_features idx fs obj)) k = map_of obj k"
proof (induction fs arbitrary: idx obj)
  case Nil
  then show ?case by simp
next
  case (Cons f fs)
  let ?obj = "obj_set (feature_key f idx) idx obj"
  from Cons.prems have head: "feature_key f idx \<noteq> k" by fastforce
  from Cons.prems have "\<forall>j<length fs. feature_key (fs ! j) (Suc idx + j) \<noteq> k" by fastforce
  from Cons.IH [OF this, of ?obj] head show ?case
    by (simp add: map_of_obj_set)
qed

lemma index_features_last:
  "i < length fs \<Longrightarrow> feature_key (fs ! i) (idx + i) = k \<Longrightarrow> k \<noteq> ''__proto__'' \<Longrightarrow>
   (\<forall>j. i < j \<and> j < length fs \<longrightarrow> feature_key (fs ! j) (idx + j) \<noteq> k) \<Longrightarrow>
     map_of (fst (index_features idx fs obj)) k = Some (idx + i)"
proof (induction fs arbitrary: idx obj i)
  case Nil
  then show ?case by simp
next
  case (Cons f fs)
  let ?obj = "obj_set (feature_key f idx) idx obj"
  show ?case
  proof (cases i)
    case 0
    with Cons.prems have "\<forall>j<length fs. feature_key (fs ! j) (Suc idx + j) \<noteq> k" by fastforce
    from index_features_untouched [OF this, of ?obj] 0 Cons.prems show ?thesis
      by (simp add: map_of_obj_set)
  next
    case (Suc i')
    with Cons.prems have a: "i' < length fs" "feature_key (fs ! i') (Suc idx + i') = k" by auto
    from Cons.prems Suc
    have b: "\<forall>j. i' < j \<and> j < length fs \<longrightarrow> feature_key (fs ! j) (Suc idx + j) \<noteq> k"
      by fastforce
    from Cons.IH [OF a Cons.prems(3) b, of ?obj] Suc show ?thesis
      by simp
  qed
qed

lemma index_features_proto:
  "map_of (fst (index_features idx fs obj)) ''__proto__'' = map_of obj ''__proto__''"
  by (induction fs arbitrary: idx obj) (auto simp: map_of_obj_set)


text \<open>
  The index that \<^verbatim>\<open>onLoad\<close> builds from the empty object: the features get their
  positions as ids; every pair of the index is a position with the key derived there;
  a key other than \<^verbatim>\<open>__proto__\<close> is recorded with the last position that derives it;
  \<^verbatim>\<open>__proto__\<close> is never recorded.
\<close>

lemma region_index_build:
  assumes "index_features 0 fs [] = (obj, out)"
  shows "map feature_id out = map KeyNumber [0..<length fs]"
    and "\<forall>(k, j)\<in>set obj. j < length fs \<and> feature_key (fs ! j) j = k"
    and "i < length fs \<Longrightarrow> feature_key (fs ! i) i \<noteq> ''__proto__'' \<Longrightarrow>
         \<forall>j. i < j \<and> j < length fs \<longrightarrow> feature_key (fs ! j) j \<noteq> feature_key (fs ! i) i \<Longrightarrow>
         map_of obj (feature_key (fs ! i) i) = Some i"
    and "map_of obj ''__proto__'' = None"
proof -
  from assms have obj: "obj = fst (index_features 0 fs [])"
    and out: "out = snd (index_features 0 fs [])" by simp_all
  show "map feature_id out = map KeyNumber [0..<length fs]"
    using index_features_ids [of 0 fs "[]"] by (simp add: out)
  show "\<forall>(k, j)\<in>set obj. j < length fs \<and> feature_key (fs ! j) j = k"
    using index_features_entries [of _ _ 0 fs "[]"] by (auto simp: obj)
  show "map_of obj (feature_key (fs ! i) i) = Some i"
    if "i < length fs" "feature_key (fs ! i) i \<noteq> ''__proto__''"
      "\<forall>j. i < j \<and> j < length fs \<longrightarrow> feature_key (fs ! j) j \<noteq> feature_key (fs ! i) i"
    using index_features_last [of i fs 0 "feature_key (fs ! i) i" "[]"] that by (simp add: obj)
  show "map_of obj ''__proto__'' = None"
    by (simp add: obj index_features_proto)
qed

text \<open>
  The key of a feature: its name when that is neither null nor undefined, else its id
  when that is neither, else its position. A feature without a name and with id 7 has the
  key \<^verbatim>\<open>"7"\<close>.
\<close>

lemma feature_key_cases:
  "feature_key f idx =
     (if \<not> nullish (feature_name f) then js_String (feature_name f)
      else if \<not> nullish (feature_id f) then js_String (feature_id f)
      else string_of_nat idx)"
  by (simp add: feature_key_def js_coalesce_def)

lemma feature_key_fallback:
  "feature_key \<lparr>properties_neighborhood = KeyUndefined, properties_name = KeyUndefined,
                 feature_id = KeyNumber 7\<rparr> 3 = ''7''"
  by (simp add: feature_key_def feature_name_def js_or_def js_coalesce_def
      string_of_nat.simps digit_char_def)

text \<open>The order of \<^verbatim>\<open>Object.entries\<close> on an example: array indices first, ascending.\<close>

lemma Object_entries_order:
  "Object_entries [(''SoMa'', 0), (''12'', 1), (''3'', 2), (''007'', 3), (''Mission'', 4)]
     = [(''3'', 2), (''12'', 1), (''SoMa'', 0), (''007'', 3), (''Mission'', 4)]"
  by (simp add: Object_entries_def array_index_def index_rank_def is_digit_def digits_value_def
      digit_value_def string_of_nat.simps digit_char_def)

lemma set_Object_entries: "set (Object_entries obj) = set obj"
  by (auto simp: Object_entries_def)

lemma distinct_snd_Object_entries:
  assumes "distinct (map snd obj)"
  shows "distinct (map snd (Object_entries obj))"
proof -
  from assms have d: "distinct obj" and i: "inj_on snd (set obj)"
    by (simp_all add: distinct_map)
  have "distinct (Object_entries obj)"
    using d by (auto simp: Object_entries_def)
  moreover have "inj_on snd (set (Object_entries obj))"
    using i by (simp add: set_Object_entries)
  ultimately show ?thesis by (simp add: distinct_map)
qed

lemma reset_risk_eq:
  "reset_risk i s =
     s\<lparr>featureState :=
         (\<lambda>j. if i \<le> j \<and> j < featureCountRef s then Some (Finite 0) else featureState s j)\<rparr>"
proof (induction i s rule: reset_risk.induct)
  case (1 i s)
  show ?case
  proof (cases "i < featureCountRef s")
    case True
    have "reset_risk i s = reset_risk (Suc i) (setFeatureState i (Finite 0) s)"
      using True by (subst reset_risk.simps) simp
    also have "\<dots> = s\<lparr>featureState :=
         (\<lambda>j. if i \<le> j \<and> j < featureCountRef s then Some (Finite 0) else featureState s j)\<rparr>"
      using True by (subst "1.IH" [OF True]) (auto simp: setFeatureState_def fun_eq_iff)
    finally show ?thesis .
  next
    case False
    then have "reset_risk i s = s" by (subst reset_risk.simps) simp
    moreover from False have
      "(\<lambda>j. if i \<le> j \<and> j < featureCountRef s then Some (Finite 0) else featureState s j)
         = featureState s"
      by (auto simp: fun_eq_iff)
    ultimately show ?thesis by simp
  qed
qed

lemma set_risk_frame:
  "set_risk es byName s = s\<lparr>featureState := featureState (set_risk es byName s)\<rparr>"
proof (induction es arbitrary: s)
  case Nil
  show ?case by simp
next
  case (Cons e es)
  obtain name idx where e: "e = (name, idx)" by (cases e)
  let ?s = "setFeatureState idx (risk_of byName name) s"
  have "set_risk (e # es) byName s = ?s\<lparr>featureState := featureState (set_risk es byName ?s)\<rparr>"
    using Cons.IH [of ?s] by (simp add: e)
  then show ?case by (simp add: e setFeatureState_def)
qed

lemma set_risk_miss:
  "j \<notin> snd ` set es \<Longrightarrow> featureState (set_risk es byName s) j = featureState s j"
  by (induction es arbitrary: s) (auto simp: setFeatureState_def)

lemma set_risk_hit:
  "distinct (map snd es) \<Longrightarrow> (k, j) \<in> set es \<Longrightarrow>
     featureState (set_risk es byName s) j = Some (risk_of byName k)"
proof (induction es arbitrary: s)
  case Nil
  then show ?case by simp
next
  case (Cons e es)
  obtain name idx where e: "e = (name, idx)" by (cases e)
  show ?case
  proof (cases "(k, j) = e")
    case True
    with Cons.prems e have "j \<notin> snd ` set es" by auto
    from set_risk_miss [OF this] True e show ?thesis
      by (simp add: setFeatureState_def)
  next
    case False
    with Cons.prems have "(k, j) \<in> set es" "distinct (map snd es)" by auto
    from Cons.IH [OF this(2) this(1)] show ?thesis by (simp add: e)
  qed
qed

lemma map_of_foldl_update:
  "map_of (foldl (\<lambda>m (k, v). AList.update k v m) acc pairs) k =
     (case map_of (rev pairs) k of None \<Rightarrow> map_of acc k | Some v \<Rightarrow> Some v)"
proof (induction pairs arbitrary: acc)
  case Nil
  show ?case by simp
next
  case (Cons p pairs)
  obtain a b where p: "p = (a, b)" by (cases p)
  show ?case
    by (simp add: p Cons.IH update_conv' map_of_append map_add_def split: option.splits)
qed

lemma Map_get_js_Map: "Map_get (js_Map pairs) k = map_of (rev pairs) k"
  by (simp add: Map_get_def js_Map_def map_of_foldl_update split: option.splits)

lemma Map_get_by_name_None:
  "Map_get (by_name ps) k = None \<longleftrightarrow> k \<notin> (\<lambda>p. js_String (neighborhood_id p)) ` set ps"
  by (simp add: by_name_def Map_get_js_Map map_of_eq_None_iff image_image)

lemma Map_get_by_name_Some:
  "Map_get (by_name ps) k = Some p \<Longrightarrow> p \<in> set ps \<and> js_String (neighborhood_id p) = k"
  by (auto simp: by_name_def Map_get_js_Map dest!: map_of_SomeD)

section \<open>The two halves of paintChoropleth\<close>

lemma error_message_nonempty: "fallback \<noteq> [] \<Longrightarrow> error_message msg fallback \<noteq> []"
  by (simp add: error_message_def split: option.splits)

lemma set_risk_cong:
  "featureState s = featureState s' \<Longrightarrow>
     featureState (set_risk es byName s) = featureState (set_risk es byName s')"
proof (induction es arbitrary: s s')
  case Nil
  then show ?case by simp
next
  case (Cons e es)
  obtain name idx where e: "e = (name, idx)" by (cases e)
  have "featureState (setFeatureState idx (risk_of byName name) s)
          = featureState (setFeatureState idx (risk_of byName name) s')"
    using Cons.prems by (simp add: setFeatureState_def)
  from Cons.IH [OF this] show ?case by (simp add: e)
qed

lemma resume_Rejected:
  "paintChoropleth_resume req (Rejected msg) s = finally_block (rid req) (catch_block msg s)"
  by (simp add: paintChoropleth_resume_def)

lemma resume_stale:
  "rid req \<noteq> requestIdRef s \<Longrightarrow> paintChoropleth_resume req (Fulfilled resp) s = s"
  by (simp add: paintChoropleth_resume_def finally_block_def)

lemma resume_malformed:
  "rid req = requestIdRef s \<Longrightarrow> predictions resp = None \<Longrightarrow>
     paintChoropleth_resume req (Fulfilled resp) s =
       s\<lparr>err := error_message (Some type_error_message) ''Failed to load data.'',
         loading := False\<rparr>"
  by (simp add: paintChoropleth_resume_def finally_block_def catch_block_def)

lemma paint_state:
  "set_risk es byName (reset_risk 0 (s\<lparr>predsByNameRef := b, servedWeek := w\<rparr>)) =
     s\<lparr>predsByNameRef := b, servedWeek := w,
       featureState := featureState (set_risk es byName (reset_risk 0 s))\<rparr>"
proof -
  let ?s = "s\<lparr>predsByNameRef := b, servedWeek := w\<rparr>"
  have "featureState (reset_risk 0 ?s) = featureState (reset_risk 0 s)"
    by (simp add: reset_risk_eq cong: if_cong)
  from set_risk_cong [OF this]
  have "featureState (set_risk es byName (reset_risk 0 ?s))
          = featureState (set_risk es byName (reset_risk 0 s))" .
  moreover have "set_risk es byName (reset_risk 0 ?s)
      = ?s\<lparr>featureState := featureState (set_risk es byName (reset_risk 0 ?s))\<rparr>"
    by (subst set_risk_frame) (simp add: reset_risk_eq)
  ultimately show ?thesis by simp
qed

lemma idMapRef_reset_risk [simp]: "idMapRef (reset_risk i s) = idMapRef s"
  by (simp add: reset_risk_eq)

lemma resume_accepted:
  assumes "rid req = requestIdRef s" "predictions resp = Some ps"
  shows "paintChoropleth_resume req (Fulfilled resp) s =
       s\<lparr>predsByNameRef := by_name ps,
         servedWeek :=
           (if currentMode req = ''spike''
            then (case served_week resp of None \<Rightarrow> None
                  | Some w \<Rightarrow> if w = [] then None else Some w)
            else servedWeek s),
         featureState :=
           featureState (set_risk (Object_entries (idMapRef s)) (by_name ps) (reset_risk 0 s)),
         loading := False\<rparr>"
proof (cases "currentMode req = ''spike''")
  case True
  show ?thesis
    using assms True paint_state [where es = "Object_entries (idMapRef s)" and byName = "by_name ps" and s = s
        and b = "by_name ps"]
    by (simp add: paintChoropleth_resume_def Let_def finally_block_def)
next
  case False
  show ?thesis
    using assms False
      paint_state [where es = "Object_entries (idMapRef s)" and byName = "by_name ps" and s = s
        and b = "by_name ps" and w = "servedWeek s"]
    by (simp add: paintChoropleth_resume_def Let_def finally_block_def)
qed

lemma call_ready:
  "mapRef s \<Longrightarrow> neigh_source s \<Longrightarrow>
     paintChoropleth_call m d c t s =
       (s\<lparr>loading := True, err := [], servedWeek := None, requestIdRef := Suc (requestIdRef s)\<rparr>,
        Some \<lparr>rid = Suc (requestIdRef s), currentMode = m, req_date = d, req_crime = c,
              req_time = t\<rparr>)"
  by (simp add: paintChoropleth_call_def Let_def)

lemma call_guard:
  "\<not> (mapRef s \<and> neigh_source s) \<Longrightarrow> paintChoropleth_call m d c t s = (s, None)"
  by (auto simp: paintChoropleth_call_def)

lemma resume_frame:
  "mapRef (paintChoropleth_resume req outcome s) = mapRef s
   \<and> neigh_source (paintChoropleth_resume req outcome s) = neigh_source s
   \<and> requestIdRef (paintChoropleth_resume req outcome s) = requestIdRef s
   \<and> idMapRef (paintChoropleth_resume req outcome s) = idMapRef s
   \<and> featureCountRef (paintChoropleth_resume req outcome s) = featureCountRef s"
proof (cases outcome)
  case (Rejected msg)
  then show ?thesis
    by (simp add: resume_Rejected finally_block_def catch_block_def)
next
  case (Fulfilled resp)
  show ?thesis
  proof (cases "rid req = requestIdRef s")
    case False
    with Fulfilled show ?thesis by (simp add: resume_stale)
  next
    case True
    show ?thesis
    proof (cases "predictions resp")
      case None
      with True Fulfilled show ?thesis by (simp add: resume_malformed)
    next
      case (Some ps)
      with True Fulfilled show ?thesis by (simp add: resume_accepted)
    qed
  qed
qed

lemma loaded_eq:
  "loaded =
     \<lparr>mapRef = True, neigh_source = True, idMapRef = [(''Mission'', 0), (''SoMa'', 1)],
      featureCountRef = 2, predsByNameRef = [], requestIdRef = 1, err = [], loading = True,
      servedWeek = None, featureState = (\<lambda>i. None)\<rparr>"
  by (simp add: loaded_def onLoad_def mounted_def initial_state_def mission_def soma_def
      index_features.simps Let_def feature_key_def feature_name_def js_or_def js_coalesce_def
      obj_set_def paintChoropleth_call_def)

section \<open>An accepted response\<close>

lemma indexed_entries:
  assumes "indexed fs s" "(k, j) \<in> set (idMapRef s)"
  shows "j < length fs \<and> feature_key (fs ! j) j = k \<and> k \<noteq> ''__proto__''"
  using assms index_features_entries [of k j 0 fs "[]"] by (simp add: indexed_def)

lemma indexed_distinct_keys: "indexed fs s \<Longrightarrow> distinct (map fst (idMapRef s))"
  using index_features_distinct [of "[]" 0 fs] by (simp add: indexed_def)

lemma indexed_distinct_slots:
  assumes "indexed fs s"
  shows "distinct (map snd (idMapRef s))"
proof -
  from indexed_distinct_keys [OF assms] have "distinct (idMapRef s)"
    by (simp add: distinct_map)
  moreover have "inj_on snd (set (idMapRef s))"
  proof (rule inj_onI)
    fix x y assume x: "x \<in> set (idMapRef s)" and y: "y \<in> set (idMapRef s)" and e: "snd x = snd y"
    from indexed_entries [OF assms, of "fst x" "snd x"] x
    have "fst x = feature_key (fs ! snd x) (snd x)" by simp
    moreover from indexed_entries [OF assms, of "fst y" "snd y"] y
    have "fst y = feature_key (fs ! snd y) (snd y)" by simp
    ultimately show "x = y" using e by (simp add: prod_eq_iff)
  qed
  ultimately show ?thesis by (simp add: distinct_map)
qed

lemma indexed_frame:
  "indexed fs (paintChoropleth_resume req outcome s) = indexed fs s"
  "indexed fs (fst (paintChoropleth_call m d c t s)) = indexed fs s"
  by (simp_all add: indexed_def resume_frame paintChoropleth_call_def Let_def)

lemma accepted_hit:
  assumes "indexed fs s" "rid req = requestIdRef s" "predictions resp = Some ps"
    and "(k, j) \<in> set (idMapRef s)"
  shows "featureState (paintChoropleth_resume req (Fulfilled resp) s) j
           = Some (risk_of (by_name ps) k)"
proof -
  from indexed_distinct_slots [OF assms(1)]
  have "distinct (map snd (Object_entries (idMapRef s)))"
    by (rule distinct_snd_Object_entries)
  moreover from assms(4) have "(k, j) \<in> set (Object_entries (idMapRef s))"
    by (simp add: set_Object_entries)
  ultimately have "featureState (set_risk (Object_entries (idMapRef s)) (by_name ps)
      (reset_risk 0 s)) j = Some (risk_of (by_name ps) k)"
    by (rule set_risk_hit)
  then show ?thesis by (simp add: resume_accepted [OF assms(2,3)])
qed

lemma accepted_miss:
  assumes "rid req = requestIdRef s" "predictions resp = Some ps"
    and "j \<notin> snd ` set (idMapRef s)"
  shows "featureState (paintChoropleth_resume req (Fulfilled resp) s) j
           = (if j < featureCountRef s then Some (Finite 0) else featureState s j)"
proof -
  from assms(3) have "j \<notin> snd ` set (Object_entries (idMapRef s))"
    by (simp add: set_Object_entries)
  from set_risk_miss [OF this]
  have "featureState (set_risk (Object_entries (idMapRef s)) (by_name ps) (reset_risk 0 s)) j
          = featureState (reset_risk 0 s) j" .
  then show ?thesis by (simp add: resume_accepted [OF assms(1,2)] reset_risk_eq)
qed

lemma risk_of_absent: "Map_get byName k = None \<Longrightarrow> risk_of byName k = Finite 0"
  by (simp add: risk_of_def)

lemma risk_of_finite:
  "Map_get byName k = Some p \<Longrightarrow> js_Number (risk p) = Finite r \<Longrightarrow> risk_of byName k = Finite r"
  by (simp add: risk_of_def)

lemma risk_of_not_finite:
  "Map_get byName k = Some p \<Longrightarrow> \<not> isFinite (js_Number (risk p)) \<Longrightarrow>
     risk_of byName k = Finite 0"
  by (simp add: risk_of_def)

lemma accepted_slot:
  assumes "indexed fs s" "rid req = requestIdRef s" "predictions resp = Some ps"
    and "j < length fs"
  shows "featureState (paintChoropleth_resume req (Fulfilled resp) s) j
           = Some (if (feature_key (fs ! j) j, j) \<in> set (idMapRef s)
                   then risk_of (by_name ps) (feature_key (fs ! j) j) else Finite 0)"
proof (cases "(feature_key (fs ! j) j, j) \<in> set (idMapRef s)")
  case True
  from accepted_hit [OF assms(1-3) True] True show ?thesis by simp
next
  case False
  have "j \<notin> snd ` set (idMapRef s)"
  proof
    assume "j \<in> snd ` set (idMapRef s)"
    then obtain k where k: "(k, j) \<in> set (idMapRef s)" by force
    from indexed_entries [OF assms(1) k] k False show False by simp
  qed
  from accepted_miss [OF assms(2,3) this] assms(1,4) False show ?thesis
    by (simp add: indexed_def)
qed

section \<open>Sequences of events, and the example data evaluated\<close>

lemma react_ready:
  assumes "mapRef s" "neigh_source s" "react e s = (s1, issued)"
  shows "mapRef s1 \<and> neigh_source s1
     \<and> (case e of
          Call m d c t \<Rightarrow> requestIdRef s1 = Suc (requestIdRef s)
                           \<and> (\<exists>q. issued = Some q \<and> rid q = Suc (requestIdRef s))
        | Settle req outcome \<Rightarrow> requestIdRef s1 = requestIdRef s \<and> issued = None)"
proof (cases e)
  case (Call m d c t)
  with assms call_ready [OF assms(1,2), of m d c t] show ?thesis by auto
next
  case (Settle req outcome)
  with assms resume_frame [of req outcome s] show ?thesis by auto
qed

lemma run_epochs:
  "mapRef s \<Longrightarrow> neigh_source s \<Longrightarrow> run evs s = (s', reqs) \<Longrightarrow>
     map rid reqs = [Suc (requestIdRef s)..<Suc (requestIdRef s) + length reqs]
     \<and> requestIdRef s' = requestIdRef s + length reqs
     \<and> length reqs = length (filter is_Call evs)"
proof (induction evs arbitrary: s s' reqs)
  case Nil
  then show ?case by simp
next
  case (Cons e evs)
  obtain s1 issued where r: "react e s = (s1, issued)" by (cases "react e s")
  obtain s2 later where l: "run evs s1 = (s2, later)" by (cases "run evs s1")
  from react_ready [OF Cons.prems(1,2) r] have ready: "mapRef s1" "neigh_source s1" by simp_all
  note IH = Cons.IH [OF ready l]
  from Cons.prems(3) r l have s': "s' = s2"
    and reqs: "reqs = (case issued of None \<Rightarrow> [] | Some req \<Rightarrow> [req]) @ later"
    by simp_all
  show ?case
  proof (cases e)
    case (Call m d c t)
    with react_ready [OF Cons.prems(1,2) r] obtain q where
      q: "issued = Some q" "rid q = Suc (requestIdRef s)" "requestIdRef s1 = Suc (requestIdRef s)"
      by auto
    have "[Suc (requestIdRef s)..<Suc (requestIdRef s) + Suc (length later)]
            = Suc (requestIdRef s) # [Suc (Suc (requestIdRef s))..<Suc (Suc (requestIdRef s)) + length later]"
      by (subst upt_rec) simp
    with IH q s' reqs Call show ?thesis by simp
  next
    case (Settle req outcome)
    with react_ready [OF Cons.prems(1,2) r]
    have "issued = None" "requestIdRef s1 = requestIdRef s" by auto
    with IH s' reqs Settle show ?thesis by simp
  qed
qed

lemma resume_stale_sync:
  "rid req \<noteq> requestIdRef s \<Longrightarrow>
     synchronized (paintChoropleth_resume req outcome s) = synchronized s"
  by (cases outcome)
     (simp_all add: resume_stale resume_Rejected finally_block_def catch_block_def
        synchronized_def)

lemma resume_sync_cong:
  assumes "synchronized s = synchronized s'" "idMapRef s = idMapRef s'"
    "featureCountRef s = featureCountRef s'" "requestIdRef s = requestIdRef s'"
  shows "synchronized (paintChoropleth_resume req outcome s)
           = synchronized (paintChoropleth_resume req outcome s')"
proof (cases outcome)
  case (Rejected msg)
  with assms show ?thesis
    by (simp add: resume_Rejected finally_block_def catch_block_def synchronized_def)
next
  case (Fulfilled resp)
  show ?thesis
  proof (cases "rid req = requestIdRef s")
    case False
    with Fulfilled assms show ?thesis by (simp add: resume_stale)
  next
    case True
    with assms have True': "rid req = requestIdRef s'" by simp
    show ?thesis
    proof (cases "predictions resp")
      case None
      with True True' Fulfilled assms show ?thesis
        by (simp add: resume_malformed synchronized_def)
    next
      case (Some ps)
      from assms have "featureState (reset_risk 0 s) = featureState (reset_risk 0 s')"
        by (simp add: reset_risk_eq synchronized_def cong: if_cong)
      from set_risk_cong [OF this]
      have "featureState (set_risk (Object_entries (idMapRef s)) (by_name ps) (reset_risk 0 s))
          = featureState (set_risk (Object_entries (idMapRef s')) (by_name ps) (reset_risk 0 s'))"
        using assms by simp
      with Some True True' Fulfilled assms show ?thesis
        by (simp add: resume_accepted synchronized_def)
    qed
  qed
qed

text \<open>The \<^verbatim>\<open>catch\<close> block does not look at \<open>rid\<close>: a rejection always sets the message.\<close>

lemma rejection_sets_err:
  "err (paintChoropleth_resume req (Rejected msg) s) = error_message msg ''Failed to load data.''"
  by (simp add: resume_Rejected finally_block_def catch_block_def)

lemma servedWeek_Rejected:
  "servedWeek (paintChoropleth_resume req (Rejected x) s) = servedWeek s"
  by (simp add: resume_Rejected finally_block_def catch_block_def)

lemma servedWeek_stale:
  "rid req \<noteq> requestIdRef s \<Longrightarrow> servedWeek (paintChoropleth_resume req outcome s) = servedWeek s"
  using resume_stale_sync [of req s outcome] by (simp add: synchronized_def)

lemma servedWeek_malformed:
  "rid req = requestIdRef s \<Longrightarrow> predictions r = None \<Longrightarrow>
     servedWeek (paintChoropleth_resume req (Fulfilled r) s) = servedWeek s"
  by (simp add: resume_malformed)

lemma servedWeek_accepted:
  assumes "rid req = requestIdRef s" "predictions r \<noteq> None"
  shows "servedWeek (paintChoropleth_resume req (Fulfilled r) s)
          = (if currentMode req = ''spike''
             then (case served_week r of None \<Rightarrow> None | Some w \<Rightarrow> if w = [] then None else Some w)
             else servedWeek s)"
proof -
  from assms(2) obtain ps where "predictions r = Some ps" by auto
  from resume_accepted [OF assms(1) this] show ?thesis by simp
qed

lemma servedWeek_forecast:
  assumes "currentMode req \<noteq> ''spike''"
  shows "servedWeek (paintChoropleth_resume req outcome s) = servedWeek s"
proof (cases outcome)
  case (Rejected x)
  then show ?thesis by (simp add: servedWeek_Rejected)
next
  case (Fulfilled r)
  show ?thesis
  proof (cases "rid req = requestIdRef s")
    case False
    then show ?thesis by (rule servedWeek_stale)
  next
    case True
    show ?thesis
    proof (cases "predictions r = None")
      case True
      with \<open>rid req = requestIdRef s\<close> Fulfilled show ?thesis
        by (simp add: servedWeek_malformed)
    next
      case False
      with \<open>rid req = requestIdRef s\<close> Fulfilled assms show ?thesis
        by (simp add: servedWeek_accepted)
    qed
  qed
qed

lemma onLoad_indexed:
  "idMapRef s = [] \<Longrightarrow> indexed fs (fst (onLoad (Fulfilled (Some fs)) m d c t s))"
  using index_features_length [of 0 fs "[]"]
  by (auto simp: onLoad_def indexed_def paintChoropleth_call_def Let_def split: prod.splits)

lemma indexed_loaded: "indexed [mission, soma] loaded"
  by (simp add: indexed_def loaded_eq mission_def soma_def feature_key_def feature_name_def
      js_or_def js_coalesce_def obj_set_def)

lemma risk_of_single:
  "risk_of (by_name [record_for k r]) k' =
     (if k' = k then (if isFinite (js_Number r) then js_Number r else Finite 0) else Finite 0)"
  by (simp add: risk_of_def by_name_def js_Map_def Map_get_def record_for_def)

lemma painted_80_risk: "featureState painted_80 0 = Some (Finite 80)"
proof -
  have "(''Mission'', 0) \<in> set (idMapRef loaded)" by (simp add: loaded_eq)
  from accepted_hit [OF indexed_loaded _ _ this, of "request_no 1 ''forecast''"
      "mission_only 80" "[record_for ''Mission'' (Num (Finite 80))]"]
  show ?thesis
    by (simp add: painted_80_def request_no_def loaded_eq mission_only_def risk_of_single)
qed

lemma repainting_facts:
  "indexed [mission, soma] repainting" "requestIdRef repainting = 2"
  "idMapRef repainting = [(''Mission'', 0), (''SoMa'', 1)]"
  "featureState repainting 0 = Some (Finite 80)"
proof -
  have r: "mapRef painted_80" "neigh_source painted_80" "requestIdRef painted_80 = 1"
    "idMapRef painted_80 = [(''Mission'', 0), (''SoMa'', 1)]"
    by (simp_all add: painted_80_def resume_frame loaded_eq)
  show "indexed [mission, soma] repainting"
    by (simp add: repainting_def painted_80_def indexed_frame indexed_loaded)
  show "requestIdRef repainting = 2" "idMapRef repainting = [(''Mission'', 0), (''SoMa'', 1)]"
    "featureState repainting 0 = Some (Finite 80)"
    using r painted_80_risk by (simp_all add: repainting_def call_ready)
qed

lemma loaded_proto_facts:
  "indexed [mission, proto_region, proto_region] loaded_proto"
  "idMapRef loaded_proto = [(''Mission'', 0)]"
  "requestIdRef loaded_proto = 1"
  "featureCountRef loaded_proto = 3"
proof -
  have e: "idMapRef mounted = []" by (simp add: mounted_def initial_state_def)
  show "indexed [mission, proto_region, proto_region] loaded_proto"
    unfolding loaded_proto_def by (rule onLoad_indexed [OF e])
  then show "idMapRef loaded_proto = [(''Mission'', 0)]" "featureCountRef loaded_proto = 3"
    by (simp_all add: indexed_def mission_def proto_region_def feature_key_def feature_name_def
        js_or_def js_coalesce_def obj_set_def)
  show "requestIdRef loaded_proto = 1"
    by (simp add: loaded_proto_def onLoad_def mounted_def initial_state_def
        paintChoropleth_call_def Let_def split: prod.splits)
qed

text \<open>
  The end-to-end scenario of the specification: after the spike response for
  \<^verbatim>\<open>Mission\<close> with risk 62 and served week \<^verbatim>\<open>2024-W09\<close> is accepted, slot 0 shows 62,
  slot 1 shows 0, and the cache holds the one record.
\<close>

lemma end_to_end_scenario:
  "idMapRef loaded = [(''Mission'', 0), (''SoMa'', 1)]
   \<and> featureState (paintChoropleth_resume (request_no 1 ''spike'') (Fulfilled mission_62) loaded) 0
       = Some (Finite 62)
   \<and> featureState (paintChoropleth_resume (request_no 1 ''spike'') (Fulfilled mission_62) loaded) 1
       = Some (Finite 0)
   \<and> servedWeek (paintChoropleth_resume (request_no 1 ''spike'') (Fulfilled mission_62) loaded)
       = Some ''2024-W09''
   \<and> predsByNameRef (paintChoropleth_resume (request_no 1 ''spike'') (Fulfilled mission_62) loaded)
       = [(''Mission'', record_for ''Mission'' (Num (Finite 62)))]"
proof -
  have h: "rid (request_no 1 ''spike'') = requestIdRef loaded"
    by (simp add: loaded_eq request_no_def)
  have p: "predictions mission_62 = Some [record_for ''Mission'' (Num (Finite 62))]"
    by (simp add: mission_62_def)
  have i: "idMapRef loaded = [(''Mission'', 0), (''SoMa'', 1)]" by (simp add: loaded_eq)
  have "(''Mission'', 0) \<in> set (idMapRef loaded)" by (simp add: i)
  from accepted_hit [OF indexed_loaded h p this]
  have a: "featureState (paintChoropleth_resume (request_no 1 ''spike'') (Fulfilled mission_62) loaded) 0
       = Some (Finite 62)"
    by (simp add: risk_of_single)
  have "(''SoMa'', 1) \<in> set (idMapRef loaded)" by (simp add: i)
  from accepted_hit [OF indexed_loaded h p this]
  have b: "featureState (paintChoropleth_resume (request_no 1 ''spike'') (Fulfilled mission_62) loaded) 1
       = Some (Finite 0)"
    by (simp add: risk_of_single)
  have c: "servedWeek (paintChoropleth_resume (request_no 1 ''spike'') (Fulfilled mission_62) loaded)
       = Some ''2024-W09''"
    "predsByNameRef (paintChoropleth_resume (request_no 1 ''spike'') (Fulfilled mission_62) loaded)
       = [(''Mission'', record_for ''Mission'' (Num (Finite 62)))]"
    unfolding resume_accepted [OF h p]
    by (simp_all add: request_no_def mission_62_def by_name_def js_Map_def record_for_def)
  from i a b c show ?thesis by blast
qed

section \<open>Claims\<close>

text \<open>
  C1. Let a call issue request \<open>e1\<close> and a second call issue request \<open>e2\<close> before the
  fetch of \<open>e1\<close> settles. Whatever the two fetches bring and in whichever order they
  settle, the rendered risks, the prediction cache and the served week end as if only
  \<open>e2\<close> had settled; in particular an accepted response of \<open>e2\<close> leaves its own lookup
  as the cache. A settlement whose request is no longer the last issued changes none of
  the three.
\<close>

theorem issuance_order_wins:
  assumes "paintChoropleth_call m1 d1 c1 t1 s = (s1, Some e1)"
    and "paintChoropleth_call m2 d2 c2 t2 s1 = (s2, Some e2)"
  shows "synchronized (paintChoropleth_resume e2 o2 (paintChoropleth_resume e1 o1 s2))
           = synchronized (paintChoropleth_resume e2 o2 s2)
     \<and> synchronized (paintChoropleth_resume e1 o1 (paintChoropleth_resume e2 o2 s2))
           = synchronized (paintChoropleth_resume e2 o2 s2)
     \<and> synchronized (paintChoropleth_resume e1 o1 s2) = synchronized s2
     \<and> (\<forall>resp ps. o2 = Fulfilled resp \<and> predictions resp = Some ps \<longrightarrow>
           predsByNameRef (paintChoropleth_resume e1 o1 (paintChoropleth_resume e2 o2 s2))
             = by_name ps)
     \<and> (\<forall>req outcome st. rid req \<noteq> requestIdRef st \<longrightarrow>
           synchronized (paintChoropleth_resume req outcome st) = synchronized st)"
proof -
  from assms(1) have r1: "mapRef s" "neigh_source s"
    by (auto simp: paintChoropleth_call_def split: if_splits)
  from assms(1) call_ready [OF r1, of m1 d1 c1 t1]
  have e1: "rid e1 = Suc (requestIdRef s)" and s1: "requestIdRef s1 = Suc (requestIdRef s)"
    by auto
  from assms(2) have r2: "mapRef s1" "neigh_source s1"
    by (auto simp: paintChoropleth_call_def split: if_splits)
  from assms(2) call_ready [OF r2, of m2 d2 c2 t2] s1
  have e2: "rid e2 = requestIdRef s2" and s2: "requestIdRef s2 = Suc (Suc (requestIdRef s))"
    by auto
  from e1 s2 have stale: "rid e1 \<noteq> requestIdRef s2" by simp
  have a: "synchronized (paintChoropleth_resume e1 o1 s2) = synchronized s2"
    by (rule resume_stale_sync [OF stale])
  have b: "synchronized (paintChoropleth_resume e2 o2 (paintChoropleth_resume e1 o1 s2))
           = synchronized (paintChoropleth_resume e2 o2 s2)"
    by (rule resume_sync_cong [OF a]) (simp_all add: resume_frame)
  from stale have "rid e1 \<noteq> requestIdRef (paintChoropleth_resume e2 o2 s2)"
    by (simp add: resume_frame)
  from resume_stale_sync [OF this]
  have c: "synchronized (paintChoropleth_resume e1 o1 (paintChoropleth_resume e2 o2 s2))
           = synchronized (paintChoropleth_resume e2 o2 s2)" .
  have d: "predsByNameRef (paintChoropleth_resume e1 o1 (paintChoropleth_resume e2 o2 s2))
             = by_name ps" if "o2 = Fulfilled resp" "predictions resp = Some ps" for resp ps
  proof -
    from that e2 have "predsByNameRef (paintChoropleth_resume e2 o2 s2) = by_name ps"
      by (simp add: resume_accepted)
    with c show ?thesis by (simp add: synchronized_def)
  qed
  from a b c d resume_stale_sync show ?thesis by blast
qed

theorem issuance_order_wins_witness:
  "paintChoropleth_call ''spike'' ''2024-03-01'' ''all'' ''all'' loaded
       = (loaded\<lparr>requestIdRef := 2\<rparr>, Some (request_no 2 ''spike''))
   \<and> paintChoropleth_call ''forecast'' ''2024-03-01'' ''all'' ''all'' (loaded\<lparr>requestIdRef := 2\<rparr>)
       = (issued_twice, Some (request_no 3 ''forecast''))
   \<and> synchronized (paintChoropleth_resume (request_no 3 ''forecast'') (Fulfilled soma_30)
         (paintChoropleth_resume (request_no 2 ''spike'') (Fulfilled mission_62) issued_twice))
       = synchronized (paintChoropleth_resume (request_no 3 ''forecast'') (Fulfilled soma_30) issued_twice)
   \<and> synchronized (paintChoropleth_resume (request_no 2 ''spike'') (Fulfilled mission_62)
         (paintChoropleth_resume (request_no 3 ''forecast'') (Fulfilled soma_30) issued_twice))
       = synchronized (paintChoropleth_resume (request_no 3 ''forecast'') (Fulfilled soma_30) issued_twice)"
proof -
  have h1: "paintChoropleth_call ''spike'' ''2024-03-01'' ''all'' ''all'' loaded
       = (loaded\<lparr>requestIdRef := 2\<rparr>, Some (request_no 2 ''spike''))"
    by (simp add: loaded_eq paintChoropleth_call_def Let_def request_no_def)
  have h2: "paintChoropleth_call ''forecast'' ''2024-03-01'' ''all'' ''all'' (loaded\<lparr>requestIdRef := 2\<rparr>)
       = (issued_twice, Some (request_no 3 ''forecast''))"
    by (simp add: loaded_eq issued_twice_def paintChoropleth_call_def Let_def request_no_def)
  from issuance_order_wins [OF h1 h2, of "Fulfilled soma_30" "Fulfilled mission_62"] h1 h2
  show ?thesis by blast
qed

text \<open>
  C2. An accepted response first sets the risk of every feature id below the feature
  count to 0 and then, for every pair of the region index, sets the risk of the pair's
  slot from the response: the risk of the record found under the pair's key (run through
  \<^verbatim>\<open>Number\<close> and the finiteness test), and 0 when there is none. So after an accepted
  response every region whose key is not among the response's keys has risk 0, whatever
  its risk was before.
\<close>

theorem reset_completeness:
  assumes "indexed fs s" "rid req = requestIdRef s" "predictions resp = Some ps"
  shows "featureState (paintChoropleth_resume req (Fulfilled resp) s)
           = featureState (set_risk (Object_entries (idMapRef s)) (by_name ps) (reset_risk 0 s))
     \<and> (\<forall>j<featureCountRef s. featureState (reset_risk 0 s) j = Some (Finite 0))
     \<and> (\<forall>(k, j)\<in>set (idMapRef s).
           featureState (paintChoropleth_resume req (Fulfilled resp) s) j
             = Some (risk_of (by_name ps) k))
     \<and> (\<forall>(k, j)\<in>set (idMapRef s). \<forall>p r.
           Map_get (by_name ps) k = Some p \<and> risk p = Num (Finite r) \<longrightarrow>
           featureState (paintChoropleth_resume req (Fulfilled resp) s) j = Some (Finite r))
     \<and> (\<forall>j<length fs.
           featureState (paintChoropleth_resume req (Fulfilled resp) s) j
             = Some (if (feature_key (fs ! j) j, j) \<in> set (idMapRef s)
                     then risk_of (by_name ps) (feature_key (fs ! j) j) else Finite 0))
     \<and> (\<forall>j<length fs.
           feature_key (fs ! j) j \<notin> (\<lambda>p. js_String (neighborhood_id p)) ` set ps \<longrightarrow>
           featureState (paintChoropleth_resume req (Fulfilled resp) s) j = Some (Finite 0))"
proof (intro conjI allI impI ballI)
  show "featureState (paintChoropleth_resume req (Fulfilled resp) s)
          = featureState (set_risk (Object_entries (idMapRef s)) (by_name ps) (reset_risk 0 s))"
    by (simp add: resume_accepted [OF assms(2,3)])
next
  fix j assume "j < featureCountRef s"
  then show "featureState (reset_risk 0 s) j = Some (Finite 0)"
    by (simp add: reset_risk_eq)
next
  fix e assume e: "e \<in> set (idMapRef s)"
  obtain k j where kj: "e = (k, j)" by (cases e)
  from accepted_hit [OF assms, of k j] e kj
  show "case e of (k, j) \<Rightarrow>
      featureState (paintChoropleth_resume req (Fulfilled resp) s) j
        = Some (risk_of (by_name ps) k)"
    by simp
next
  fix e assume e: "e \<in> set (idMapRef s)"
  obtain k j where kj: "e = (k, j)" by (cases e)
  have "featureState (paintChoropleth_resume req (Fulfilled resp) s) j = Some (Finite r)"
    if "Map_get (by_name ps) k = Some p \<and> risk p = Num (Finite r)" for p r
  proof -
    from that have "risk_of (by_name ps) k = Finite r" by (simp add: risk_of_finite)
    with accepted_hit [OF assms, of k j] e kj show ?thesis by simp
  qed
  then show "case e of (k, j) \<Rightarrow> \<forall>p r.
      Map_get (by_name ps) k = Some p \<and> risk p = Num (Finite r) \<longrightarrow>
      featureState (paintChoropleth_resume req (Fulfilled resp) s) j = Some (Finite r)"
    unfolding kj by blast
next
  fix j assume "j < length fs"
  then show "featureState (paintChoropleth_resume req (Fulfilled resp) s) j
      = Some (if (feature_key (fs ! j) j, j) \<in> set (idMapRef s)
              then risk_of (by_name ps) (feature_key (fs ! j) j) else Finite 0)"
    by (rule accepted_slot [OF assms])
next
  fix j assume j: "j < length fs"
    and "feature_key (fs ! j) j \<notin> (\<lambda>p. js_String (neighborhood_id p)) ` set ps"
  then have "Map_get (by_name ps) (feature_key (fs ! j) j) = None"
    by (simp add: Map_get_by_name_None)
  then have "risk_of (by_name ps) (feature_key (fs ! j) j) = Finite 0"
    by (rule risk_of_absent)
  with accepted_slot [OF assms j]
  show "featureState (paintChoropleth_resume req (Fulfilled resp) s) j = Some (Finite 0)"
    by simp
qed

theorem reset_completeness_witness:
  "featureState repainting 0 = Some (Finite 80)
   \<and> featureState (paintChoropleth_resume (request_no 2 ''forecast'') (Fulfilled soma_30) repainting) 0
       = Some (Finite 0)"
proof -
  have h: "rid (request_no 2 ''forecast'') = requestIdRef repainting"
    by (simp add: repainting_facts request_no_def)
  have p: "predictions soma_30 = Some [record_for ''SoMa'' (Num (Finite 30))]"
    by (simp add: soma_30_def)
  have a: "(0::nat) < length [mission, soma]" by simp
  have b: "feature_key ([mission, soma] ! 0) 0
      \<notin> (\<lambda>p. js_String (neighborhood_id p)) ` set [record_for ''SoMa'' (Num (Finite 30))]"
    by (simp add: mission_def feature_key_def feature_name_def js_or_def js_coalesce_def
        record_for_def)
  from reset_completeness [OF repainting_facts(1) h p] a b
  have "featureState (paintChoropleth_resume (request_no 2 ''forecast'') (Fulfilled soma_30) repainting) 0
       = Some (Finite 0)"
    by blast
  with repainting_facts(4) show ?thesis by blast
qed

text \<open>
  C3, as the code has it. After an accepted response, a region whose key has no record
  in the response, or whose record has a risk that is not a finite number (NaN, an
  infinity, or no risk at all), shows the risk 0 at its slot; and every finite risk is
  written as it is, whether above 100 or below 0, to the slot that the region index
  holds for the record's key.
\<close>

theorem risk_finite_or_zero:
  assumes "indexed fs s" "rid req = requestIdRef s" "predictions resp = Some ps"
  shows "(\<forall>i<length fs. Map_get (by_name ps) (feature_key (fs ! i) i) = None \<longrightarrow>
            featureState (paintChoropleth_resume req (Fulfilled resp) s) i = Some (Finite 0))
     \<and> (\<forall>i<length fs. \<forall>p.
            Map_get (by_name ps) (feature_key (fs ! i) i) = Some p
              \<and> \<not> isFinite (js_Number (risk p)) \<longrightarrow>
            featureState (paintChoropleth_resume req (Fulfilled resp) s) i = Some (Finite 0))
     \<and> (\<forall>i<length fs. \<forall>p.
            Map_get (by_name ps) (feature_key (fs ! i) i) = Some p
              \<and> (risk p = Num NaN \<or> risk p = NumUndefined) \<longrightarrow>
            featureState (paintChoropleth_resume req (Fulfilled resp) s) i = Some (Finite 0))
     \<and> (\<forall>(k, j)\<in>set (idMapRef s). \<forall>p r.
            Map_get (by_name ps) k = Some p \<and> risk p = Num (Finite r) \<longrightarrow>
            featureState (paintChoropleth_resume req (Fulfilled resp) s) j = Some (Finite r))"
proof -
  let ?fs' = "featureState (paintChoropleth_resume req (Fulfilled resp) s)"
  have a: "?fs' i = Some (Finite 0)"
    if "i < length fs" "Map_get (by_name ps) (feature_key (fs ! i) i) = None" for i
    using accepted_slot [OF assms that(1)] risk_of_absent [OF that(2)] by simp
  have b: "?fs' i = Some (Finite 0)"
    if "i < length fs" "Map_get (by_name ps) (feature_key (fs ! i) i) = Some p"
      "\<not> isFinite (js_Number (risk p))" for i p
    using accepted_slot [OF assms that(1)] risk_of_not_finite [OF that(2,3)] by simp
  have c: "?fs' i = Some (Finite 0)"
    if "i < length fs" "Map_get (by_name ps) (feature_key (fs ! i) i) = Some p"
      "risk p = Num NaN \<or> risk p = NumUndefined" for i p
  proof -
    from that(3) have "\<not> isFinite (js_Number (risk p))" by auto
    from b [OF that(1,2) this] show ?thesis .
  qed
  have d: "?fs' j = Some (Finite r)"
    if "(k, j) \<in> set (idMapRef s)" "Map_get (by_name ps) k = Some p" "risk p = Num (Finite r)"
    for k j p r
  proof -
    from that(3) have "js_Number (risk p) = Finite r" by simp
    from accepted_hit [OF assms that(1)] risk_of_finite [OF that(2) this] show ?thesis by simp
  qed
  from a b c d show ?thesis by blast
qed

theorem risk_finite_or_zero_witness:
  "featureState (paintChoropleth_resume (request_no 1 ''spike'') (Fulfilled (mission_only 137)) loaded) 0
       = Some (Finite 137)
   \<and> featureState (paintChoropleth_resume (request_no 1 ''spike'') (Fulfilled (mission_only 137)) loaded) 1
       = Some (Finite 0)
   \<and> featureState (paintChoropleth_resume (request_no 1 ''spike'')
         (Fulfilled \<lparr>predictions = Some [record_for ''Mission'' (Num NaN)], served_week = None\<rparr>)
         loaded) 0
       = Some (Finite 0)"
proof -
  have h: "rid (request_no 1 ''spike'') = requestIdRef loaded"
    by (simp add: loaded_eq request_no_def)
  have p: "predictions (mission_only 137) = Some [record_for ''Mission'' (Num (Finite 137))]"
    by (simp add: mission_only_def)
  have q: "predictions \<lparr>predictions = Some [record_for ''Mission'' (Num NaN)], served_week = None\<rparr>
      = Some [record_for ''Mission'' (Num NaN)]"
    by simp
  have e: "(''Mission'', 0) \<in> set (idMapRef loaded)" by (simp add: loaded_eq)
  have g: "Map_get (by_name [record_for ''Mission'' (Num (Finite 137))]) ''Mission''
      = Some (record_for ''Mission'' (Num (Finite 137)))"
    "Map_get (by_name [record_for ''Mission'' (Num (Finite 137))])
       (feature_key ([mission, soma] ! 1) 1) = None"
    "Map_get (by_name [record_for ''Mission'' (Num NaN)]) (feature_key ([mission, soma] ! 0) 0)
      = Some (record_for ''Mission'' (Num NaN))"
    by (simp_all add: by_name_def js_Map_def Map_get_def record_for_def mission_def soma_def
        feature_key_def feature_name_def js_or_def js_coalesce_def)
  have r: "risk (record_for ''Mission'' (Num (Finite 137))) = Num (Finite 137)"
    "risk (record_for ''Mission'' (Num NaN)) = Num NaN"
    by (simp_all add: record_for_def)
  have l: "(0::nat) < length [mission, soma]" "(1::nat) < length [mission, soma]" by simp_all
  from risk_finite_or_zero [OF indexed_loaded h p] e g(1) r(1)
  have a: "featureState (paintChoropleth_resume (request_no 1 ''spike'') (Fulfilled (mission_only 137)) loaded) 0
       = Some (Finite 137)"
    by blast
  from risk_finite_or_zero [OF indexed_loaded h p] l(2) g(2)
  have b: "featureState (paintChoropleth_resume (request_no 1 ''spike'') (Fulfilled (mission_only 137)) loaded) 1
       = Some (Finite 0)"
    by blast
  from risk_finite_or_zero [OF indexed_loaded h q] l(1) g(3) r(2)
  have c: "featureState (paintChoropleth_resume (request_no 1 ''spike'')
         (Fulfilled \<lparr>predictions = Some [record_for ''Mission'' (Num NaN)], served_week = None\<rparr>)
         loaded) 0
       = Some (Finite 0)"
    by blast
  from a b c show ?thesis by blast
qed

text \<open>
  C3 as stated fails for a negative risk: with the regions \<^verbatim>\<open>Mission\<close> and \<^verbatim>\<open>SoMa\<close>
  loaded, the accepted response \<^verbatim>\<open>{predictions: [{neighborhood_id: "Mission", risk: -5}]}\<close>
  leaves the risk of slot 0 at \<^verbatim>\<open>-5\<close>, not at 0.
\<close>

theorem negative_risk_not_clamped:
  "featureState (paintChoropleth_resume (request_no 1 ''forecast'') (Fulfilled (mission_only (- 5))) loaded) 0
     = Some (Finite (- 5))
   \<and> featureState (paintChoropleth_resume (request_no 1 ''forecast'') (Fulfilled (mission_only (- 5))) loaded) 0
     \<noteq> Some (Finite 0)"
proof -
  have "(''Mission'', 0) \<in> set (idMapRef loaded)" by (simp add: loaded_eq)
  from accepted_hit [OF indexed_loaded _ _ this, of "request_no 1 ''forecast''"
      "mission_only (- 5)" "[record_for ''Mission'' (Num (Finite (- 5)))]"]
  have "featureState (paintChoropleth_resume (request_no 1 ''forecast'') (Fulfilled (mission_only (- 5))) loaded) 0
     = Some (Finite (- 5))"
    by (simp add: request_no_def loaded_eq mission_only_def risk_of_single)
  then show ?thesis by simp
qed

text \<open>
  C4 fails on the code. From \<open>loaded\<close>, a spike call (epoch 2) and a forecast call
  (epoch 3) lead to \<open>issued_twice\<close>, where no error is shown. When the fetch of epoch 2,
  which is no longer the last issued, is then rejected with the message
  \<^verbatim>\<open>Network Error\<close>, the \<^verbatim>\<open>catch\<close> block shows that message while epoch 3 is still
  loading, and the message stays when the response of epoch 3 is accepted. A fulfilled
  fetch of epoch 2 would have left the state as it is.
\<close>

theorem stale_failure_is_surfaced:
  "run [Call ''spike'' ''2024-03-01'' ''all'' ''all'',
        Call ''forecast'' ''2024-03-01'' ''all'' ''all'',
        Settle (request_no 2 ''spike'') (Rejected (Some ''Network Error''))] loaded
     = (issued_twice\<lparr>err := ''Network Error''\<rparr>,
        [request_no 2 ''spike'', request_no 3 ''forecast''])
   \<and> rid (request_no 2 ''spike'') \<noteq> requestIdRef issued_twice
   \<and> err issued_twice = [] \<and> loading (issued_twice\<lparr>err := ''Network Error''\<rparr>)
   \<and> err (paintChoropleth_resume (request_no 3 ''forecast'') (Fulfilled soma_30)
        (issued_twice\<lparr>err := ''Network Error''\<rparr>)) = ''Network Error''
   \<and> paintChoropleth_resume (request_no 2 ''spike'') (Fulfilled mission_62) issued_twice
       = issued_twice"
proof -
  have a: "run [Call ''spike'' ''2024-03-01'' ''all'' ''all'',
        Call ''forecast'' ''2024-03-01'' ''all'' ''all'',
        Settle (request_no 2 ''spike'') (Rejected (Some ''Network Error''))] loaded
     = (issued_twice\<lparr>err := ''Network Error''\<rparr>,
        [request_no 2 ''spike'', request_no 3 ''forecast''])"
    by (simp add: issued_twice_def loaded_eq request_no_def paintChoropleth_call_def Let_def
        resume_Rejected finally_block_def catch_block_def error_message_def)
  have b: "rid (request_no 2 ''spike'') \<noteq> requestIdRef issued_twice
   \<and> err issued_twice = [] \<and> loading (issued_twice\<lparr>err := ''Network Error''\<rparr>)
   \<and> paintChoropleth_resume (request_no 2 ''spike'') (Fulfilled mission_62) issued_twice
       = issued_twice"
    by (simp add: issued_twice_def loaded_eq request_no_def resume_stale)
  have "rid (request_no 3 ''forecast'') = requestIdRef (issued_twice\<lparr>err := ''Network Error''\<rparr>)"
    by (simp add: issued_twice_def loaded_eq request_no_def)
  from resume_accepted [OF this, of soma_30 "[record_for ''SoMa'' (Num (Finite 30))]"]
  have c: "err (paintChoropleth_resume (request_no 3 ''forecast'') (Fulfilled soma_30)
        (issued_twice\<lparr>err := ''Network Error''\<rparr>)) = ''Network Error''"
    by (simp add: soma_30_def)
  from a b c show ?thesis by blast
qed

text \<open>
  C5. When the fetch of the request that is still the last issued fails, the handler
  shows a non-empty error message and clears the loading flag, and nothing else changes:
  the prediction cache and every rendered risk are those of the last accepted response;
  no reset and no write happens. The same holds when the failure is the
  \<^verbatim>\<open>TypeError\<close> of a payload without \<^verbatim>\<open>predictions\<close>.
\<close>

theorem failure_atomicity:
  assumes "rid req = requestIdRef s"
  shows "paintChoropleth_resume req (Rejected msg) s
           = s\<lparr>err := error_message msg ''Failed to load data.'', loading := False\<rparr>
     \<and> err (paintChoropleth_resume req (Rejected msg) s) \<noteq> []
     \<and> predsByNameRef (paintChoropleth_resume req (Rejected msg) s) = predsByNameRef s
     \<and> featureState (paintChoropleth_resume req (Rejected msg) s) = featureState s
     \<and> (\<forall>resp. predictions resp = None \<longrightarrow>
           err (paintChoropleth_resume req (Fulfilled resp) s) \<noteq> []
           \<and> predsByNameRef (paintChoropleth_resume req (Fulfilled resp) s) = predsByNameRef s
           \<and> featureState (paintChoropleth_resume req (Fulfilled resp) s) = featureState s)"
proof -
  have "error_message m ''Failed to load data.'' \<noteq> []" for m
    by (rule error_message_nonempty) simp
  with assms show ?thesis
    by (simp add: resume_Rejected resume_malformed finally_block_def catch_block_def)
qed

theorem failure_atomicity_witness:
  "rid (request_no 1 ''forecast'') = requestIdRef loaded
   \<and> paintChoropleth_resume (request_no 1 ''forecast'') (Rejected (Some ''Network Error'')) loaded
       = loaded\<lparr>err := ''Network Error'', loading := False\<rparr>"
proof -
  have h: "rid (request_no 1 ''forecast'') = requestIdRef loaded"
    by (simp add: request_no_def loaded_eq)
  from failure_atomicity [OF h, of "Some ''Network Error''"] h show ?thesis
    by (simp add: error_message_def)
qed

text \<open>
  C6 fails on the code for the key \<^verbatim>\<open>__proto__\<close>. Two regions named \<^verbatim>\<open>__proto__\<close> after
  \<^verbatim>\<open>Mission\<close> both derive that key, and neither slot is recorded: the index holds
  \<^verbatim>\<open>Mission\<close> alone, although the features get the ids 0, 1 and 2. An accepted response
  with a risk of 62 for \<^verbatim>\<open>__proto__\<close> then leaves slot 2 at 0.
\<close>

theorem proto_key_not_indexed:
  "feature_key proto_region 1 = ''__proto__'' \<and> feature_key proto_region 2 = ''__proto__''
   \<and> fst (index_features 0 [mission, proto_region, proto_region] []) = [(''Mission'', 0)]
   \<and> map feature_id (snd (index_features 0 [mission, proto_region, proto_region] []))
       = [KeyNumber 0, KeyNumber 1, KeyNumber 2]
   \<and> idMapRef loaded_proto = [(''Mission'', 0)]
   \<and> Map_get (by_name [record_for ''__proto__'' (Num (Finite 62))]) ''__proto__''
       = Some (record_for ''__proto__'' (Num (Finite 62)))
   \<and> featureState (paintChoropleth_resume (request_no 1 ''forecast'') (Fulfilled proto_62)
        loaded_proto) 2 = Some (Finite 0)"
proof -
  have a: "feature_key proto_region 1 = ''__proto__'' \<and> feature_key proto_region 2 = ''__proto__''
   \<and> fst (index_features 0 [mission, proto_region, proto_region] []) = [(''Mission'', 0)]
   \<and> map feature_id (snd (index_features 0 [mission, proto_region, proto_region] []))
       = [KeyNumber 0, KeyNumber 1, KeyNumber 2]"
    by (simp add: mission_def proto_region_def feature_key_def feature_name_def js_or_def
        js_coalesce_def obj_set_def)
  have b: "Map_get (by_name [record_for ''__proto__'' (Num (Finite 62))]) ''__proto__''
       = Some (record_for ''__proto__'' (Num (Finite 62)))"
    by (simp add: by_name_def js_Map_def Map_get_def record_for_def)
  have h: "rid (request_no 1 ''forecast'') = requestIdRef loaded_proto"
    by (simp add: loaded_proto_facts request_no_def)
  have p: "predictions proto_62 = Some [record_for ''__proto__'' (Num (Finite 62))]"
    by (simp add: proto_62_def)
  have "(2::nat) < length [mission, proto_region, proto_region]" by simp
  from accepted_slot [OF loaded_proto_facts(1) h p this]
  have c: "featureState (paintChoropleth_resume (request_no 1 ''forecast'') (Fulfilled proto_62)
        loaded_proto) 2 = Some (Finite 0)"
    by (simp add: loaded_proto_facts)
  from a b c loaded_proto_facts(2) show ?thesis by blast
qed

text \<open>
  C7. Starting from the counter's initial value 0, the epochs that any sequence of calls
  and settlements issues are 1, 2, 3, ... in the order of issue, one for each call (so
  they increase strictly and no value is issued twice); the counter then holds the number
  of the last one, and the test \<^verbatim>\<open>rid === requestIdRef.current\<close> holds for an issued
  request exactly when it is the most recently issued one, so a new call makes every
  earlier request stale at once.
\<close>

theorem request_sequencer:
  assumes "mapRef s" "neigh_source s" "requestIdRef s = 0" "run evs s = (s', reqs)"
  shows "map rid reqs = [1..<Suc (length reqs)]
     \<and> length reqs = length (filter is_Call evs)
     \<and> requestIdRef s' = length reqs
     \<and> (reqs \<noteq> [] \<longrightarrow> requestIdRef s' = rid (last reqs))
     \<and> (\<forall>i<length reqs. (rid (reqs ! i) = requestIdRef s') = (Suc i = length reqs))"
proof -
  from run_epochs [OF assms(1,2,4)] assms(3)
  have m: "map rid reqs = [1..<Suc (length reqs)]"
    and n: "length reqs = length (filter is_Call evs)"
    and c: "requestIdRef s' = length reqs"
    by simp_all
  have "\<forall>i<length reqs. rid (reqs ! i) = Suc i"
  proof (intro allI impI)
    fix i assume i: "i < length reqs"
    then have "rid (reqs ! i) = map rid reqs ! i" by simp
    also have "\<dots> = Suc i" using i by (simp add: m del: upt_Suc)
    finally show "rid (reqs ! i) = Suc i" .
  qed
  then have i: "\<forall>i<length reqs. (rid (reqs ! i) = requestIdRef s') = (Suc i = length reqs)"
    by (simp add: c)
  have l: "requestIdRef s' = rid (last reqs)" if "reqs \<noteq> []"
  proof -
    from that have "rid (last reqs) = last (map rid reqs)" by (simp add: last_map)
    also have "\<dots> = length reqs" using that by (simp add: m del: upt_Suc)
    finally show ?thesis by (simp add: c)
  qed
  from m n c i l show ?thesis by blast
qed

theorem request_sequencer_witness:
  "run [Call ''forecast'' ''2024-03-01'' ''all'' ''all'',
        Call ''spike'' ''2024-03-01'' ''all'' ''all'',
        Settle (request_no 1 ''forecast'') (Rejected None),
        Call ''spike'' ''2024-03-01'' ''all'' ''all'']
       (mounted\<lparr>neigh_source := True\<rparr>)
     = (mounted\<lparr>neigh_source := True, requestIdRef := 3, loading := True\<rparr>,
        [request_no 1 ''forecast'', request_no 2 ''spike'', request_no 3 ''spike''])
   \<and> map rid [request_no 1 ''forecast'', request_no 2 ''spike'', request_no 3 ''spike'']
       = [1..<Suc (length [request_no 1 ''forecast'', request_no 2 ''spike'', request_no 3 ''spike''])]
   \<and> requestIdRef (mounted\<lparr>neigh_source := True, requestIdRef := 3, loading := True\<rparr>)
       = length [request_no 1 ''forecast'', request_no 2 ''spike'', request_no 3 ''spike'']"
proof -
  let ?s = "mounted\<lparr>neigh_source := True\<rparr>"
  let ?evs = "[Call ''forecast'' ''2024-03-01'' ''all'' ''all'',
        Call ''spike'' ''2024-03-01'' ''all'' ''all'',
        Settle (request_no 1 ''forecast'') (Rejected None),
        Call ''spike'' ''2024-03-01'' ''all'' ''all'']"
  have h1: "mapRef ?s" and h2: "neigh_source ?s" and h3: "requestIdRef ?s = 0"
    by (simp_all add: mounted_def initial_state_def)
  have h4: "run ?evs ?s
     = (mounted\<lparr>neigh_source := True, requestIdRef := 3, loading := True\<rparr>,
        [request_no 1 ''forecast'', request_no 2 ''spike'', request_no 3 ''spike''])"
    by (simp add: mounted_def initial_state_def paintChoropleth_call_def Let_def
        resume_Rejected finally_block_def catch_block_def request_no_def error_message_def)
  from request_sequencer [OF h1 h2 h3 h4] h4 show ?thesis
    by blast
qed

text \<open>
  C8. A call that passes the guard sets the served week to null. Afterwards a settlement
  leaves the served week as it was when the fetch was rejected, when the request is no
  longer the last issued, and when the request is not a spike request; an accepted spike
  response sets it to the response's \<^verbatim>\<open>served_week\<close>, or to null when that is absent or
  empty. So a settlement that leaves a non-null served week where it was null is that of
  an accepted spike response carrying that \<^verbatim>\<open>served_week\<close>.
\<close>

theorem served_week_lifecycle:
  "(mapRef s \<and> neigh_source s \<longrightarrow> servedWeek (fst (paintChoropleth_call m d c t s)) = None)
   \<and> servedWeek (paintChoropleth_resume req (Rejected msg) s) = servedWeek s
   \<and> (rid req \<noteq> requestIdRef s \<longrightarrow>
        servedWeek (paintChoropleth_resume req outcome s) = servedWeek s)
   \<and> (currentMode req \<noteq> ''spike'' \<longrightarrow>
        servedWeek (paintChoropleth_resume req outcome s) = servedWeek s)
   \<and> (rid req = requestIdRef s \<and> currentMode req = ''spike'' \<and> predictions resp \<noteq> None \<longrightarrow>
        servedWeek (paintChoropleth_resume req (Fulfilled resp) s)
          = (case served_week resp of None \<Rightarrow> None | Some w \<Rightarrow> if w = [] then None else Some w))
   \<and> (servedWeek s = None \<and> servedWeek (paintChoropleth_resume req outcome s) = Some w \<longrightarrow>
        rid req = requestIdRef s \<and> currentMode req = ''spike''
        \<and> (\<exists>resp. outcome = Fulfilled resp \<and> served_week resp = Some w))"
proof (intro conjI impI)
  assume "mapRef s \<and> neigh_source s"
  then show "servedWeek (fst (paintChoropleth_call m d c t s)) = None"
    by (simp add: call_ready)
next
  show "servedWeek (paintChoropleth_resume req (Rejected msg) s) = servedWeek s"
    by (rule servedWeek_Rejected)
next
  assume "rid req \<noteq> requestIdRef s"
  then show "servedWeek (paintChoropleth_resume req outcome s) = servedWeek s"
    by (rule servedWeek_stale)
next
  assume "currentMode req \<noteq> ''spike''"
  then show "servedWeek (paintChoropleth_resume req outcome s) = servedWeek s"
    by (rule servedWeek_forecast)
next
  assume "rid req = requestIdRef s \<and> currentMode req = ''spike'' \<and> predictions resp \<noteq> None"
  then show "servedWeek (paintChoropleth_resume req (Fulfilled resp) s)
          = (case served_week resp of None \<Rightarrow> None | Some w \<Rightarrow> if w = [] then None else Some w)"
    by (simp add: servedWeek_accepted)
next
  assume a: "servedWeek s = None \<and> servedWeek (paintChoropleth_resume req outcome s) = Some w"
  then have ne: "servedWeek (paintChoropleth_resume req outcome s) \<noteq> servedWeek s" by simp
  show cur: "rid req = requestIdRef s"
    using ne servedWeek_stale [of req s outcome] by blast
  show sp: "currentMode req = ''spike''"
    using ne servedWeek_forecast [of req outcome s] by blast
  from ne obtain r where r: "outcome = Fulfilled r"
    using servedWeek_Rejected [of req _ s] by (cases outcome) auto
  from ne r have p: "predictions r \<noteq> None"
    using servedWeek_malformed [OF cur, of r] by blast
  from a r have "servedWeek (paintChoropleth_resume req (Fulfilled r) s) = Some w" by simp
  then have "served_week r = Some w"
    unfolding servedWeek_accepted [OF cur p] using sp
    by (cases "served_week r") (simp_all split: if_splits)
  with r show "\<exists>resp. outcome = Fulfilled resp \<and> served_week resp = Some w" by blast
qed

theorem served_week_lifecycle_witness:
  "servedWeek (fst (paintChoropleth_call ''spike'' ''2024-03-01'' ''all'' ''all''
        (loaded\<lparr>servedWeek := Some ''2024-W09''\<rparr>))) = None
   \<and> servedWeek (paintChoropleth_resume (request_no 1 ''spike'') (Fulfilled mission_62) loaded)
       = Some ''2024-W09''
   \<and> servedWeek (paintChoropleth_resume (request_no 1 ''forecast'') (Fulfilled mission_62) loaded)
       = None
   \<and> servedWeek (paintChoropleth_resume (request_no 7 ''spike'') (Fulfilled mission_62) loaded)
       = None"
proof -
  have h1: "mapRef (loaded\<lparr>servedWeek := Some ''2024-W09''\<rparr>)
      \<and> neigh_source (loaded\<lparr>servedWeek := Some ''2024-W09''\<rparr>)"
    by (simp add: loaded_eq)
  have h2: "rid (request_no 1 ''spike'') = requestIdRef loaded
      \<and> currentMode (request_no 1 ''spike'') = ''spike'' \<and> predictions mission_62 \<noteq> None"
    by (simp add: loaded_eq request_no_def mission_62_def)
  have h3: "currentMode (request_no 1 ''forecast'') \<noteq> ''spike''"
    by (simp add: request_no_def)
  have h4: "rid (request_no 7 ''spike'') \<noteq> requestIdRef loaded"
    by (simp add: loaded_eq request_no_def)
  have n: "servedWeek loaded = None" by (simp add: loaded_eq)
  have v: "(case served_week mission_62 of None \<Rightarrow> None
            | Some w \<Rightarrow> if w = [] then None else Some w) = Some ''2024-W09''"
    by (simp add: mission_62_def)
  from served_week_lifecycle [where s = "loaded\<lparr>servedWeek := Some ''2024-W09''\<rparr>"
      and m = "''spike''" and d = "''2024-03-01''" and c = "''all''" and t = "''all''"] h1
  have a: "servedWeek (fst (paintChoropleth_call ''spike'' ''2024-03-01'' ''all'' ''all''
        (loaded\<lparr>servedWeek := Some ''2024-W09''\<rparr>))) = None"
    by blast
  from served_week_lifecycle [where s = loaded and req = "request_no 1 ''spike''"
      and resp = mission_62] h2
  have "servedWeek (paintChoropleth_resume (request_no 1 ''spike'') (Fulfilled mission_62) loaded)
       = (case served_week mission_62 of None \<Rightarrow> None
            | Some w \<Rightarrow> if w = [] then None else Some w)"
    by blast
  then have b: "servedWeek (paintChoropleth_resume (request_no 1 ''spike'') (Fulfilled mission_62) loaded)
       = Some ''2024-W09''"
    by (simp only: v)
  from served_week_lifecycle [where s = loaded and req = "request_no 1 ''forecast''"
      and outcome = "Fulfilled mission_62"] h3
  have "servedWeek (paintChoropleth_resume (request_no 1 ''forecast'') (Fulfilled mission_62) loaded)
       = servedWeek loaded"
    by blast
  then have c: "servedWeek (paintChoropleth_resume (request_no 1 ''forecast'') (Fulfilled mission_62) loaded)
       = None"
    by (simp only: n)
  from served_week_lifecycle [where s = loaded and req = "request_no 7 ''spike''"
      and outcome = "Fulfilled mission_62"] h4
  have "servedWeek (paintChoropleth_resume (request_no 7 ''spike'') (Fulfilled mission_62) loaded)
       = servedWeek loaded"
    by blast
  then have d: "servedWeek (paintChoropleth_resume (request_no 7 ''spike'') (Fulfilled mission_62) loaded)
       = None"
    by (simp only: n)
  from a b c d show ?thesis by blast
qed

text \<open>
  C9. Given the same \<^verbatim>\<open>predictions\<close> in the response, the spike branch and the forecast
  branch leave the same rendered risk at every feature id, the same prediction cache, and
  the same state altogether except for the served week, which only the spike branch
  writes. When the response is accepted, the risks are those of the reset loop followed
  by the apply loop.
\<close>

theorem mode_branches_agree:
  assumes "currentMode q1 = ''spike''" "currentMode q2 \<noteq> ''spike''" "rid q1 = rid q2"
    and "predictions r1 = predictions r2"
  shows "featureState (paintChoropleth_resume q1 (Fulfilled r1) s)
           = featureState (paintChoropleth_resume q2 (Fulfilled r2) s)
     \<and> predsByNameRef (paintChoropleth_resume q1 (Fulfilled r1) s)
           = predsByNameRef (paintChoropleth_resume q2 (Fulfilled r2) s)
     \<and> paintChoropleth_resume q1 (Fulfilled r1) s
           = (paintChoropleth_resume q2 (Fulfilled r2) s)
               \<lparr>servedWeek := servedWeek (paintChoropleth_resume q1 (Fulfilled r1) s)\<rparr>
     \<and> (\<forall>ps. rid q1 = requestIdRef s \<and> predictions r1 = Some ps \<longrightarrow>
           featureState (paintChoropleth_resume q1 (Fulfilled r1) s)
             = featureState (set_risk (Object_entries (idMapRef s)) (by_name ps) (reset_risk 0 s)))"
proof (cases "rid q1 = requestIdRef s")
  case False
  with assms show ?thesis by (simp add: resume_stale)
next
  case True
  with assms have c1: "rid q1 = requestIdRef s" and c2: "rid q2 = requestIdRef s" by simp_all
  show ?thesis
  proof (cases "predictions r1")
    case None
    with assms have n2: "predictions r2 = None" by simp
    show ?thesis
      by (simp add: resume_malformed [OF c1 None] resume_malformed [OF c2 n2] None)
  next
    case (Some ps)
    with assms have p2: "predictions r2 = Some ps" by simp
    show ?thesis
      by (simp add: resume_accepted [OF c1 Some] resume_accepted [OF c2 p2] assms(1,2) Some)
  qed
qed

theorem mode_branches_agree_witness:
  "currentMode (request_no 1 ''spike'') = ''spike'' \<and> currentMode (request_no 1 ''forecast'') \<noteq> ''spike''
   \<and> featureState (paintChoropleth_resume (request_no 1 ''spike'') (Fulfilled mission_62) loaded)
       = featureState (paintChoropleth_resume (request_no 1 ''forecast'')
           (Fulfilled (mission_62\<lparr>served_week := None\<rparr>)) loaded)
   \<and> servedWeek (paintChoropleth_resume (request_no 1 ''spike'') (Fulfilled mission_62) loaded)
       = Some ''2024-W09''
   \<and> servedWeek (paintChoropleth_resume (request_no 1 ''forecast'')
           (Fulfilled (mission_62\<lparr>served_week := None\<rparr>)) loaded) = None"
proof -
  have h1: "currentMode (request_no 1 ''spike'') = ''spike''"
    and h2: "currentMode (request_no 1 ''forecast'') \<noteq> ''spike''"
    and h3: "rid (request_no 1 ''spike'') = rid (request_no 1 ''forecast'')"
    and h4: "predictions mission_62 = predictions (mission_62\<lparr>served_week := None\<rparr>)"
    by (simp_all add: request_no_def)
  have cur: "rid (request_no 1 ''spike'') = requestIdRef loaded"
    "rid (request_no 1 ''forecast'') = requestIdRef loaded"
    by (simp_all add: request_no_def loaded_eq)
  have w1: "servedWeek (paintChoropleth_resume (request_no 1 ''spike'') (Fulfilled mission_62) loaded)
       = Some ''2024-W09''"
    using cur(1) h1 by (simp add: resume_accepted [where ps = "[record_for ''Mission'' (Num (Finite 62))]"] mission_62_def)
  have w2: "servedWeek (paintChoropleth_resume (request_no 1 ''forecast'')
           (Fulfilled (mission_62\<lparr>served_week := None\<rparr>)) loaded) = None"
    using cur(2) h2 by (simp add: resume_accepted [where ps = "[record_for ''Mission'' (Num (Finite 62))]"] mission_62_def loaded_eq)
  from mode_branches_agree [OF h1 h2 h3 h4, of loaded] h1 h2 w1 w2 show ?thesis
    by blast
qed

text \<open>
  C10. A call of \<^verbatim>\<open>paintChoropleth\<close> made while the map or its \<^verbatim>\<open>neigh\<close> source does not
  exist returns at the guard: no request is issued and the state is the same state, so
  the epoch counter, the loading flag, the error message and the served week are
  untouched.
\<close>

theorem paint_before_init_noop:
  "\<not> mapRef s \<or> \<not> neigh_source s \<Longrightarrow>
     paintChoropleth_call m d c t s = (s, None) \<and> run [Call m d c t] s = (s, [])"
  by (auto simp: paintChoropleth_call_def)

theorem paint_before_init_noop_witness:
  "\<not> neigh_source mounted
     \<and> paintChoropleth_call ''spike'' ''2024-03-01'' ''all'' ''all'' mounted = (mounted, None)
     \<and> run [Call ''spike'' ''2024-03-01'' ''all'' ''all''] mounted = (mounted, [])"
proof -
  have h: "\<not> mapRef mounted \<or> \<not> neigh_source mounted"
    by (simp add: mounted_def initial_state_def)
  from paint_before_init_noop [OF h] h show ?thesis
    by (simp add: mounted_def initial_state_def)
qed

end
